theory Spec2Isabelle
  imports Main "HOL-Library.Word"
begin

section \<open>Data model of main.go\<close>

text \<open>
  Go strings and byte slices are byte sequences: both are modelled as \<open>string\<close>
  (a list of 8-bit characters). \<open>imap.UID\<close> and \<open>NumMessages\<close> are \<open>uint32\<close>.
\<close>

type_synonym bytes = string
type_synonym uid = "32 word"

text \<open>
  A Go \<open>error\<close> value. \<open>Err s\<close> is an error whose text is \<open>s\<close> (an error of a library,
  \<open>fmt.Errorf\<close> without \<open>%w\<close>); \<open>Wrap p e\<close> is \<open>fmt.Errorf(p + "%w", e)\<close>.
  A \<open>nil\<close> error is \<open>None\<close> of \<open>error option\<close>.
\<close>

datatype error = Err string | Wrap string error

fun error_text :: "error \<Rightarrow> string" where
  "error_text (Err s) = s"
| "error_text (Wrap p e) = p @ error_text e"

text \<open>The verb \<open>%d\<close> of \<open>fmt\<close>: the decimal digits of an integer.\<close>

definition digit :: "nat \<Rightarrow> char" where
  "digit d = ''0123456789'' ! d"

fun digits :: "nat \<Rightarrow> string" where
  "digits n = (if n < 10 then [digit n] else digits (n div 10) @ [digit (n mod 10)])"

declare digits.simps [simp del]

definition itoa :: "int \<Rightarrow> string" where
  "itoa i = (if i < 0 then CHR ''-'' # digits (nat (- i)) else digits (nat i))"

record Config =
  IMAPServer :: string
  IMAPPort :: string
  IMAPUser :: string
  IMAPPassword :: string
  LexofficeKey :: string
  PollInterval :: int

section \<open>Regular expressions of the ignore list\<close>

text \<open>
  The package \<open>regexp\<close> is not part of the repository. The three patterns of
  \<open>IgnorePatterns\<close> use literal characters, \<open>.\<close>, \<open>^\<close> and \<open>$\<close> only, so a pattern is
  a sequence of these items. With the flags of \<open>regexp.MustCompile\<close> (no \<open>s\<close>, no \<open>m\<close>) the
  dot matches any character except the line feed, and \<open>^\<close> and \<open>$\<close> match at the
  beginning and at the end of the text only. \<open>MatchString\<close> looks for a match starting
  anywhere in the text.

  The text is matched byte by byte. Go matches code point by code point; for these
  patterns the answer is the same: every literal is ASCII, an ASCII byte is never part
  of a longer UTF-8 sequence, and the code point before \<open>ics\<close> is a line feed exactly
  when the byte before \<open>ics\<close> is.
\<close>

datatype re_item = Lit char | AnyCharNotNL | BeginText | EndText

type_synonym Regexp = "re_item list"

definition newline :: char where
  "newline = CHR 0x0A"

text \<open>\<open>matchHere p b s\<close>: the pattern matches a prefix of \<open>s\<close>; \<open>b\<close> tells that \<open>s\<close> is the
  whole text.\<close>

fun matchHere :: "Regexp \<Rightarrow> bool \<Rightarrow> string \<Rightarrow> bool" where
  "matchHere [] b s = True"
| "matchHere (BeginText # r) b s = (b \<and> matchHere r b s)"
| "matchHere (EndText # r) b s = (s = [] \<and> matchHere r b s)"
| "matchHere (Lit c # r) b [] = False"
| "matchHere (Lit c # r) b (x # xs) = (x = c \<and> matchHere r False xs)"
| "matchHere (AnyCharNotNL # r) b [] = False"
| "matchHere (AnyCharNotNL # r) b (x # xs) = (x \<noteq> newline \<and> matchHere r False xs)"

fun search :: "Regexp \<Rightarrow> bool \<Rightarrow> string \<Rightarrow> bool" where
  "search p b [] = matchHere p b []"
| "search p b (x # xs) = (matchHere p b (x # xs) \<or> search p False xs)"

definition MatchString :: "Regexp \<Rightarrow> string \<Rightarrow> bool" where
  "MatchString p s = search p True s"

text \<open>\<open>regexp.MustCompile\<close> of a pattern text without operators other than a leading
  \<open>^\<close>, a trailing \<open>$\<close> and dots.\<close>

fun compile_item :: "char \<Rightarrow> re_item" where
  "compile_item c = (if c = CHR ''.'' then AnyCharNotNL
                     else if c = CHR ''^'' then BeginText
                     else if c = CHR ''$'' then EndText
                     else Lit c)"

definition MustCompile :: "string \<Rightarrow> Regexp" where
  "MustCompile s = map compile_item s"

definition IgnorePatterns :: "Regexp list" where
  "IgnorePatterns = [MustCompile ''^AGB_'', MustCompile ''.ics$'', MustCompile ''^Receipt-'']"

section \<open>Attachment filter\<close>

text \<open>The loop of \<open>shouldIgnoreFile\<close> over a pattern list: true at the first match.\<close>

fun ignoredBy :: "Regexp list \<Rightarrow> string \<Rightarrow> bool" where
  "ignoredBy [] filename = False"
| "ignoredBy (pattern # rest) filename =
     (if MatchString pattern filename then True else ignoredBy rest filename)"

definition shouldIgnoreFile :: "string \<Rightarrow> bool" where
  "shouldIgnoreFile filename = ignoredBy IgnorePatterns filename"

section \<open>The world outside main.go\<close>

text \<open>
  The IMAP server, the HTTP endpoint, the process environment and the parsers of the
  libraries are not part of the repository. Each call of the program to one of them is an
  event of a trace, and its answer is given by a \<open>world\<close>: a function of the trace of
  everything that happened before the call and of the call's arguments. The trace grows
  with every call, so a world may answer the same call differently each time.
\<close>

record FetchMessageBuffer =
  UID :: uid
  BodySection :: "bytes list"

text \<open>A part of a parsed message: the kind of its header (with the result of
  \<open>h.Filename()\<close>, whose error main.go drops) and the result of \<open>io.ReadAll(part.Body)\<close>.\<close>

datatype PartHeader = InlineHeader | AttachmentHeader string

record Part =
  Header :: PartHeader
  Body :: "error + bytes"

text \<open>The request built by \<open>uploadToLexoffice\<close>. The multipart body is kept as its
  fields; the \<open>Content-Type\<close> header carries the random boundary of the multipart writer
  and is left out.\<close>

record Request =
  Method :: string
  URL :: string
  Authorization :: string
  Accept :: string
  FormFile :: "string \<times> string \<times> bytes"
  FormFields :: "(string \<times> string) list"

record Response =
  StatusCode :: int
  RespBody :: bytes

datatype command =
    DialTLS string
  | Login string string
  | Select string
  | FetchUIDs uid uid
  | FetchBody uid
  | ListMailboxes string string
  | Create string
  | Copy uid string
  | StoreAddDeleted uid
  | Expunge
  | Logout
  | Close
  | HTTPDo Request

text \<open>The lines written with \<open>log.Printf\<close>, \<open>log.Println\<close> and \<open>log.Fatal\<close>, one
  constructor per call, with the values the format string prints.\<close>

datatype log_line =
    LFatalMissing
  | LRunningOnce
  | LStarting int
  | LConnecting
  | LFailedConnect error
  | LLoginFailed error
  | LLoggedIn
  | LSelectFailed error
  | LNoMessages
  | LFoundMessages uid
  | LFetchFailed error
  | LProcessingCount nat
  | LFailedProcess uid error
  | LLogoutFailed error
  | LProcessingUID uid
  | LFoundAttachment string
  | LSkipping string
  | LReadFailed error
  | LUploadFailed error
  | LUploaded string
  | LMoved uid
  | LNoAttachments uid
  | LCreatingFolder string

datatype event = Cmd command | Log log_line

type_synonym trace = "event list"

text \<open>\<open>mailCreateReader\<close> gives, for the bytes of a message body, the result of
  \<open>mail.CreateReader\<close>: an error, or the results of the successive calls of
  \<open>mr.NextPart()\<close>; the end of the list is \<open>io.EOF\<close>.\<close>

record world =
  osGetenv :: "string \<Rightarrow> string"
  timeParseDuration :: "string \<Rightarrow> error + int"
  imapDialTLS :: "trace \<Rightarrow> string \<Rightarrow> error option"
  imapLogin :: "trace \<Rightarrow> string \<Rightarrow> string \<Rightarrow> error option"
  imapSelect :: "trace \<Rightarrow> string \<Rightarrow> error + uid"
  imapFetchUIDs :: "trace \<Rightarrow> uid \<Rightarrow> uid \<Rightarrow> error + FetchMessageBuffer list"
  imapFetchBody :: "trace \<Rightarrow> uid \<Rightarrow> error + FetchMessageBuffer list"
  imapList :: "trace \<Rightarrow> string \<Rightarrow> string \<Rightarrow> error + string list"
  imapCreate :: "trace \<Rightarrow> string \<Rightarrow> error option"
  imapCopy :: "trace \<Rightarrow> uid \<Rightarrow> string \<Rightarrow> error option"
  imapStore :: "trace \<Rightarrow> uid \<Rightarrow> error option"
  imapExpunge :: "trace \<Rightarrow> error option"
  imapLogout :: "trace \<Rightarrow> error option"
  mailCreateReader :: "bytes \<Rightarrow> error + (error + Part) list"
  httpDo :: "trace \<Rightarrow> Request \<Rightarrow> error + Response"

section \<open>Configuration and startup\<close>

definition getEnvOrDefault :: "world \<Rightarrow> string \<Rightarrow> string \<Rightarrow> string" where
  "getEnvOrDefault w key defaultValue =
     (let val = osGetenv w key in if val \<noteq> '''' then val else defaultValue)"

text \<open>\<open>5 * time.Minute\<close> in nanoseconds.\<close>

definition fiveMinutes :: int where
  "fiveMinutes = 5 * 60 * 1000000000"

definition loadConfig :: "world \<Rightarrow> Config" where
  "loadConfig w =
     (let val = osGetenv w ''POLL_INTERVAL_MINUTES'';
          interval =
            (if val \<noteq> '''' then
               (case timeParseDuration w (val @ ''m'') of
                  Inr mins \<Rightarrow> mins
                | Inl err \<Rightarrow> fiveMinutes)
             else fiveMinutes)
      in \<lparr> IMAPServer = osGetenv w ''IMAP_SERVER'',
           IMAPPort = getEnvOrDefault w ''IMAP_PORT'' ''993'',
           IMAPUser = osGetenv w ''IMAP_USER'',
           IMAPPassword = osGetenv w ''IMAP_PASSWORD'',
           LexofficeKey = osGetenv w ''LEXOFFICE_API_KEY'',
           PollInterval = interval \<rparr>)"

section \<open>Upload client\<close>

text \<open>
  The multipart body is written into a \<open>bytes.Buffer\<close>, whose writes return no error,
  and \<open>http.NewRequest\<close> gets a constant method and URL: the early error returns before
  \<open>client.Do\<close> are not reached and have no branch here. \<open>RespBody\<close> is what
  \<open>io.ReadAll(resp.Body)\<close> returned, its error dropped as in the source.
\<close>

definition uploadToLexoffice ::
  "world \<Rightarrow> string \<Rightarrow> bytes \<Rightarrow> Config \<Rightarrow> trace \<Rightarrow> error option \<times> trace" where
  "uploadToLexoffice w filename data config tr =
     (let req = \<lparr> Method = ''POST'',
                  URL = ''https://api.lexoffice.io/v1/files'',
                  Authorization = ''Bearer '' @ LexofficeKey config,
                  Accept = ''application/json'',
                  FormFile = (''file'', filename, data),
                  FormFields = [(''type'', ''voucher'')] \<rparr>;
          tr1 = tr @ [Cmd (HTTPDo req)]
      in case httpDo w tr req of
           Inl err \<Rightarrow> (Some err, tr1)
         | Inr resp \<Rightarrow>
             if StatusCode resp < 200 \<or> StatusCode resp \<ge> 300
             then (Some (Err (''upload failed with status '' @ itoa (StatusCode resp)
                              @ '': '' @ RespBody resp)), tr1)
             else (None, tr1))"

section \<open>Mailbox state mutator\<close>

text \<open>
  \<open>strings.EqualFold\<close> compares under Unicode case folding. It is modelled on bytes with
  the folding of the ASCII letters, which is what it does on ASCII names; the program
  only calls it with the folder name \<open>done\<close>, whose letters fold to no character outside
  ASCII.
\<close>

definition toLower :: "char \<Rightarrow> char" where
  "toLower c =
     (case map_of (zip ''ABCDEFGHIJKLMNOPQRSTUVWXYZ'' ''abcdefghijklmnopqrstuvwxyz'') c of
        Some l \<Rightarrow> l
      | None \<Rightarrow> c)"

definition EqualFold :: "string \<Rightarrow> string \<Rightarrow> bool" where
  "EqualFold s t = (map toLower s = map toLower t)"

text \<open>The loop of \<open>ensureFolderExists\<close> over the listed mailboxes.\<close>

fun folderListed :: "string list \<Rightarrow> string \<Rightarrow> bool" where
  "folderListed [] folderName = False"
| "folderListed (mbox # rest) folderName =
     (if EqualFold mbox folderName then True else folderListed rest folderName)"

definition ensureFolderExists :: "world \<Rightarrow> string \<Rightarrow> trace \<Rightarrow> error option \<times> trace" where
  "ensureFolderExists w folderName tr =
     (let tr1 = tr @ [Cmd (ListMailboxes '''' folderName)]
      in case imapList w tr '''' folderName of
           Inl err \<Rightarrow> (Some (Wrap ''list failed: '' err), tr1)
         | Inr mailboxes \<Rightarrow>
             if folderListed mailboxes folderName then (None, tr1)
             else
               (let tr2 = tr1 @ [Log (LCreatingFolder folderName)];
                    tr3 = tr2 @ [Cmd (Create folderName)]
                in case imapCreate w tr2 folderName of
                     Some err \<Rightarrow> (Some (Wrap ''create folder failed: '' err), tr3)
                   | None \<Rightarrow> (None, tr3)))"

definition moveToFolder :: "world \<Rightarrow> uid \<Rightarrow> string \<Rightarrow> trace \<Rightarrow> error option \<times> trace" where
  "moveToFolder w uid folderName tr =
     (case ensureFolderExists w folderName tr of
        (Some err, tr1) \<Rightarrow> (Some err, tr1)
      | (None, tr1) \<Rightarrow>
          (let tr2 = tr1 @ [Cmd (Copy uid folderName)]
           in case imapCopy w tr1 uid folderName of
                Some err \<Rightarrow> (Some (Wrap ''copy failed: '' err), tr2)
              | None \<Rightarrow>
                  (let tr3 = tr2 @ [Cmd (StoreAddDeleted uid)]
                   in case imapStore w tr2 uid of
                        Some err \<Rightarrow> (Some (Wrap ''store flags failed: '' err), tr3)
                      | None \<Rightarrow>
                          (let tr4 = tr3 @ [Cmd Expunge]
                           in case imapExpunge w tr3 of
                                Some err \<Rightarrow> (Some (Wrap ''expunge failed: '' err), tr4)
                              | None \<Rightarrow> (None, tr4)))))"

section \<open>Message processor\<close>

text \<open>
  The \<open>for\<close> loop of \<open>processMessage\<close> over the results of \<open>mr.NextPart()\<close>. The boolean
  is \<open>hasAttachments\<close>. The result is the error the loop returns with, if any, and
  \<open>hasAttachments\<close> at the end of the loop.
\<close>

fun processParts ::
  "world \<Rightarrow> Config \<Rightarrow> (error + Part) list \<Rightarrow> bool \<Rightarrow> trace \<Rightarrow> (error option \<times> bool) \<times> trace" where
  "processParts w config [] hasAttachments tr = ((None, hasAttachments), tr)"
| "processParts w config (Inl err # rest) hasAttachments tr =
     ((Some (Wrap ''failed to read part: '' err), hasAttachments), tr)"
| "processParts w config (Inr part # rest) hasAttachments tr =
     (case Header part of
        InlineHeader \<Rightarrow> processParts w config rest hasAttachments tr
      | AttachmentHeader filename \<Rightarrow>
          (let tr1 = tr @ [Log (LFoundAttachment filename)]
           in if shouldIgnoreFile filename
              then processParts w config rest True (tr1 @ [Log (LSkipping filename)])
              else
                (case Body part of
                   Inl err \<Rightarrow> processParts w config rest True (tr1 @ [Log (LReadFailed err)])
                 | Inr data \<Rightarrow>
                     (case uploadToLexoffice w filename data config tr1 of
                        (Some err, tr2) \<Rightarrow>
                          processParts w config rest True (tr2 @ [Log (LUploadFailed err)])
                      | (None, tr2) \<Rightarrow>
                          processParts w config rest True (tr2 @ [Log (LUploaded filename)])))))"

definition processMessage :: "world \<Rightarrow> uid \<Rightarrow> Config \<Rightarrow> trace \<Rightarrow> error option \<times> trace" where
  "processMessage w uid config tr =
     (let tr0 = tr @ [Log (LProcessingUID uid)];
          tr1 = tr0 @ [Cmd (FetchBody uid)]
      in case imapFetchBody w tr0 uid of
           Inl err \<Rightarrow> (Some (Wrap ''fetch failed: '' err), tr1)
         | Inr [] \<Rightarrow> (Some (Err ''message not found''), tr1)
         | Inr (msg # others) \<Rightarrow>
             (case BodySection msg of
                [] \<Rightarrow> (Some (Err ''no body found''), tr1)
              | literal # further \<Rightarrow>
                  (case mailCreateReader w literal of
                     Inl err \<Rightarrow> (Some (Wrap ''failed to create mail reader: '' err), tr1)
                   | Inr mr \<Rightarrow>
                       (case processParts w config mr False tr1 of
                          ((Some err, hasAttachments), tr2) \<Rightarrow> (Some err, tr2)
                        | ((None, hasAttachments), tr2) \<Rightarrow>
                            if hasAttachments then
                              (case moveToFolder w uid ''done'' tr2 of
                                 (Some err, tr3) \<Rightarrow>
                                   (Some (Wrap ''failed to move message: '' err), tr3)
                               | (None, tr3) \<Rightarrow> (None, tr3 @ [Log (LMoved uid)]))
                            else (None, tr2 @ [Log (LNoAttachments uid)])))))"

section \<open>Poll driver\<close>

text \<open>The \<open>for\<close> loop of \<open>processMailbox\<close> over the fetched messages.\<close>

fun processMessages :: "world \<Rightarrow> Config \<Rightarrow> FetchMessageBuffer list \<Rightarrow> trace \<Rightarrow> trace" where
  "processMessages w config [] tr = tr"
| "processMessages w config (msg # rest) tr =
     (case processMessage w (UID msg) config tr of
        (Some err, tr1) \<Rightarrow>
          processMessages w config rest (tr1 @ [Log (LFailedProcess (UID msg) err)])
      | (None, tr1) \<Rightarrow> processMessages w config rest tr1)"

text \<open>The part of \<open>processMailbox\<close> after \<open>defer c.Close()\<close>.\<close>

definition mailboxSession :: "world \<Rightarrow> Config \<Rightarrow> trace \<Rightarrow> trace" where
  "mailboxSession w config tr =
     (let tr1 = tr @ [Cmd (Login (IMAPUser config) (IMAPPassword config))]
      in case imapLogin w tr (IMAPUser config) (IMAPPassword config) of
           Some err \<Rightarrow> tr1 @ [Log (LLoginFailed err)]
         | None \<Rightarrow>
             (let tr2 = tr1 @ [Log LLoggedIn];
                  tr3 = tr2 @ [Cmd (Select ''INBOX'')]
              in case imapSelect w tr2 ''INBOX'' of
                   Inl err \<Rightarrow> tr3 @ [Log (LSelectFailed err)]
                 | Inr numMessages \<Rightarrow>
                     if numMessages = 0 then tr3 @ [Log LNoMessages]
                     else
                       (let tr4 = tr3 @ [Log (LFoundMessages numMessages)];
                            tr5 = tr4 @ [Cmd (FetchUIDs 1 numMessages)]
                        in case imapFetchUIDs w tr4 1 numMessages of
                             Inl err \<Rightarrow> tr5 @ [Log (LFetchFailed err)]
                           | Inr msgs \<Rightarrow>
                               (let tr6 = processMessages w config msgs
                                            (tr5 @ [Log (LProcessingCount (length msgs))]);
                                    tr7 = tr6 @ [Cmd Logout]
                                in case imapLogout w tr6 of
                                     Some err \<Rightarrow> tr7 @ [Log (LLogoutFailed err)]
                                   | None \<Rightarrow> tr7))))"

definition processMailbox :: "world \<Rightarrow> Config \<Rightarrow> trace \<Rightarrow> trace" where
  "processMailbox w config tr =
     (let tr0 = tr @ [Log LConnecting];
          address = IMAPServer config @ '':'' @ IMAPPort config;
          tr1 = tr0 @ [Cmd (DialTLS address)]
      in case imapDialTLS w tr0 address of
           Some err \<Rightarrow> tr1 @ [Log (LFailedConnect err)]
         | None \<Rightarrow> mailboxSession w config tr1 @ [Cmd Close])"

text \<open>
  \<open>main\<close>. \<open>runOnce\<close> is the parsed flag \<open>-once\<close>. The loop over \<open>ticker.C\<close> never ends:
  \<open>ticks\<close> is the number of ticks observed, after which the process is still waiting.
  \<open>log.Fatal\<close> ends the process, and \<open>time.NewTicker\<close> panics when the interval is not
  positive.
\<close>

datatype exit = Fatal | Returned | Panicked | Waiting

fun tickerLoop :: "world \<Rightarrow> Config \<Rightarrow> nat \<Rightarrow> trace \<Rightarrow> trace" where
  "tickerLoop w config 0 tr = tr"
| "tickerLoop w config (Suc ticks) tr = tickerLoop w config ticks (processMailbox w config tr)"

definition main :: "world \<Rightarrow> bool \<Rightarrow> nat \<Rightarrow> exit \<times> trace" where
  "main w runOnce ticks =
     (let config = loadConfig w
      in if IMAPServer config = '''' \<or> IMAPUser config = '''' \<or> IMAPPassword config = ''''
            \<or> LexofficeKey config = ''''
         then (Fatal, [Log LFatalMissing])
         else if runOnce then (Returned, processMailbox w config [Log LRunningOnce])
         else
           (let tr = [Log (LStarting (PollInterval config))]
            in if PollInterval config \<le> 0 then (Panicked, tr)
               else (Waiting, tickerLoop w config ticks (processMailbox w config tr))))"

text \<open>The calls of the mailbox state mutator: the commands \<open>moveToFolder\<close> and
  \<open>ensureFolderExists\<close> send.\<close>

fun mutatorCall :: "event \<Rightarrow> bool" where
  "mutatorCall (Cmd (ListMailboxes r n)) = True"
| "mutatorCall (Cmd (Create n)) = True"
| "mutatorCall (Cmd (Copy u n)) = True"
| "mutatorCall (Cmd (StoreAddDeleted u)) = True"
| "mutatorCall (Cmd Expunge) = True"
| "mutatorCall e = False"

section \<open>Events by origin\<close>

text \<open>The events the loop over the parts can add to the trace.\<close>

fun partEvent :: "event \<Rightarrow> bool" where
  "partEvent (Cmd (HTTPDo req)) = True"
| "partEvent (Log (LFoundAttachment f)) = True"
| "partEvent (Log (LSkipping f)) = True"
| "partEvent (Log (LReadFailed e)) = True"
| "partEvent (Log (LUploadFailed e)) = True"
| "partEvent (Log (LUploaded f)) = True"
| "partEvent e = False"

text \<open>The events \<open>moveToFolder\<close> can add to the trace.\<close>

fun moveEvent :: "event \<Rightarrow> bool" where
  "moveEvent (Log (LCreatingFolder n)) = True"
| "moveEvent e = mutatorCall e"

text \<open>The commands of one complete move, with or without the creation of the folder.\<close>

definition moveSteps :: "uid \<Rightarrow> string \<Rightarrow> bool \<Rightarrow> event list" where
  "moveSteps uid folderName create =
     Cmd (ListMailboxes '''' folderName) # (if create then [Cmd (Create folderName)] else [])
       @ [Cmd (Copy uid folderName), Cmd (StoreAddDeleted uid), Cmd Expunge]"

text \<open>The filename of an upload request in the trace.\<close>

fun uploadOf :: "event \<Rightarrow> string option" where
  "uploadOf (Cmd (HTTPDo req)) = Some (fst (snd (FormFile req)))"
| "uploadOf e = None"

definition uploads :: "trace \<Rightarrow> string list" where
  "uploads tr = List.map_filter uploadOf tr"

text \<open>The start of the processing of a message.\<close>

fun processingStart :: "event \<Rightarrow> bool" where
  "processingStart (Log (LProcessingUID u)) = True"
| "processingStart e = False"

text \<open>An attachment-level failure reported by the loop over the parts.\<close>

fun attachmentFailure :: "event \<Rightarrow> bool" where
  "attachmentFailure (Log (LReadFailed e)) = True"
| "attachmentFailure (Log (LUploadFailed e)) = True"
| "attachmentFailure e = False"

section \<open>Example worlds\<close>

definition exampleEnv :: "string \<Rightarrow> string" where
  "exampleEnv key =
     (if key = ''IMAP_SERVER'' then ''mail.example.org''
      else if key = ''IMAP_USER'' then ''bob''
      else if key = ''IMAP_PASSWORD'' then ''secret''
      else if key = ''LEXOFFICE_API_KEY'' then ''key''
      else '''')"

definition exampleConfig :: Config where
  "exampleConfig = \<lparr> IMAPServer = ''mail.example.org'', IMAPPort = ''993'', IMAPUser = ''bob'',
                     IMAPPassword = ''secret'', LexofficeKey = ''key'',
                     PollInterval = fiveMinutes \<rparr>"

text \<open>
  A world whose inbox lists the messages 7 and 9. The body of message 7 cannot be
  fetched; every other message parses into the given parts. Every upload is answered with
  the given status. The folder \<open>done\<close> exists and every other command succeeds.
\<close>

definition exampleWorld :: "(error + Part) list \<Rightarrow> int \<Rightarrow> world" where
  "exampleWorld stream status =
     \<lparr> osGetenv = exampleEnv,
       timeParseDuration = (\<lambda>s. Inl (Err ''invalid duration'')),
       imapDialTLS = (\<lambda>tr address. None),
       imapLogin = (\<lambda>tr user password. None),
       imapSelect = (\<lambda>tr name. Inr 2),
       imapFetchUIDs = (\<lambda>tr first last.
          Inr [\<lparr> UID = 7, BodySection = [] \<rparr>, \<lparr> UID = 9, BodySection = [] \<rparr>]),
       imapFetchBody = (\<lambda>tr u.
          if u = 7 then Inl (Err ''timeout'') else Inr [\<lparr> UID = u, BodySection = [''raw''] \<rparr>]),
       imapList = (\<lambda>tr reference name. Inr [''done'']),
       imapCreate = (\<lambda>tr name. None),
       imapCopy = (\<lambda>tr u name. None),
       imapStore = (\<lambda>tr u. None),
       imapExpunge = (\<lambda>tr. None),
       imapLogout = (\<lambda>tr. None),
       mailCreateReader = (\<lambda>body. Inr stream),
       httpDo = (\<lambda>tr req. Inr \<lparr> StatusCode = status, RespBody = ''{}'' \<rparr>) \<rparr>"

definition textPart :: Part where
  "textPart = \<lparr> Header = InlineHeader, Body = Inr ''hello'' \<rparr>"

definition invoicePart :: Part where
  "invoicePart = \<lparr> Header = AttachmentHeader ''invoice.pdf'', Body = Inr ''%PDF'' \<rparr>"

definition termsPart :: Part where
  "termsPart = \<lparr> Header = AttachmentHeader ''AGB_terms.pdf'', Body = Inr ''%PDF'' \<rparr>"

definition brokenPart :: Part where
  "brokenPart = \<lparr> Header = AttachmentHeader ''scan.pdf'', Body = Inl (Err ''unexpected EOF'') \<rparr>"

section \<open>Traces\<close>

text \<open>What a call added to the trace \<open>tr\<close> it started from, given the trace \<open>tr'\<close> it
  returned.\<close>

definition emitted :: "trace \<Rightarrow> trace \<Rightarrow> trace" where
  "emitted tr tr' = drop (length tr) tr'"

section \<open>Properties of the attachment filter\<close>

lemma ignoredBy_iff: "ignoredBy ps f \<longleftrightarrow> (\<exists>p\<in>set ps. MatchString p f)"
  by (induction ps) auto

lemma search_BeginText_False: "search (BeginText # r) False s = False"
  by (induction s) auto

lemma matchHere_lits:
  "matchHere (map Lit l @ r) b s \<longleftrightarrow> (\<exists>t. s = l @ t \<and> matchHere r (b \<and> l = []) t)"
proof (induction l arbitrary: b s)
  case Nil
  then show ?case by simp
next
  case (Cons c l)
  then show ?case by (cases s) auto
qed

text \<open>A pattern \<open>^\<close> followed by literals matches exactly the texts that begin with the
  literals.\<close>

lemma MatchString_anchored_prefix:
  "MatchString (BeginText # map Lit l) s \<longleftrightarrow> (\<exists>t. s = l @ t)"
proof (cases s)
  case Nil
  then show ?thesis
    using matchHere_lits [of l "[]" True "[]"] by (auto simp: MatchString_def)
next
  case (Cons x xs)
  then show ?thesis
    using matchHere_lits [of l "[]" True s] by (auto simp: MatchString_def search_BeginText_False)
qed

lemma matchHere_dot_ics:
  "matchHere (MustCompile ''.ics$'') b s \<longleftrightarrow> (\<exists>c. s = c # ''ics'' \<and> c \<noteq> newline)"
proof (cases s)
  case Nil
  then show ?thesis by (simp add: MustCompile_def)
next
  case s1: (Cons x xs)
  show ?thesis
  proof (cases xs)
    case Nil
    with s1 show ?thesis by (simp add: MustCompile_def)
  next
    case s2: (Cons y ys)
    show ?thesis
    proof (cases ys)
      case Nil
      with s1 s2 show ?thesis by (simp add: MustCompile_def)
    next
      case s3: (Cons z zs)
      show ?thesis
      proof (cases zs)
        case Nil
        with s1 s2 s3 show ?thesis by (simp add: MustCompile_def)
      next
        case (Cons u us)
        with s1 s2 s3 show ?thesis by (auto simp: MustCompile_def)
      qed
    qed
  qed
qed

text \<open>The pattern \<open>.ics$\<close> matches exactly the texts that end with \<open>ics\<close> after a character
  other than the line feed.\<close>

lemma search_dot_ics:
  "search (MustCompile ''.ics$'') b s \<longleftrightarrow> (\<exists>p c. s = p @ c # ''ics'' \<and> c \<noteq> newline)"
proof (induction s arbitrary: b)
  case Nil
  then show ?case by (simp add: matchHere_dot_ics)
next
  case (Cons x xs)
  show ?case
  proof
    assume "search (MustCompile ''.ics$'') b (x # xs)"
    then consider "matchHere (MustCompile ''.ics$'') b (x # xs)"
      | "search (MustCompile ''.ics$'') False xs"
      by auto
    then show "\<exists>p c. x # xs = p @ c # ''ics'' \<and> c \<noteq> newline"
    proof cases
      case 1
      then have "\<exists>c. x # xs = [] @ c # ''ics'' \<and> c \<noteq> newline"
        by (simp add: matchHere_dot_ics)
      then show ?thesis by blast
    next
      case 2
      then obtain p c where "xs = p @ c # ''ics''" "c \<noteq> newline"
        using Cons.IH by blast
      then have "x # xs = (x # p) @ c # ''ics'' \<and> c \<noteq> newline" by simp
      then show ?thesis by blast
    qed
  next
    assume "\<exists>p c. x # xs = p @ c # ''ics'' \<and> c \<noteq> newline"
    then obtain p c where pc: "x # xs = p @ c # ''ics''" "c \<noteq> newline" by blast
    show "search (MustCompile ''.ics$'') b (x # xs)"
    proof (cases p)
      case Nil
      with pc have "matchHere (MustCompile ''.ics$'') b (x # xs)"
        by (simp add: matchHere_dot_ics)
      then show ?thesis by simp
    next
      case (Cons y ys)
      with pc have "xs = ys @ c # ''ics''" by simp
      with pc(2) have "search (MustCompile ''.ics$'') False xs" using Cons.IH by blast
      then show ?thesis by simp
    qed
  qed
qed

lemma MustCompile_AGB: "MustCompile ''^AGB_'' = BeginText # map Lit ''AGB_''"
  by (simp add: MustCompile_def)

lemma MustCompile_Receipt: "MustCompile ''^Receipt-'' = BeginText # map Lit ''Receipt-''"
  by (simp add: MustCompile_def)

text \<open>What the three patterns together accept.\<close>

lemma shouldIgnoreFile_char:
  "shouldIgnoreFile f \<longleftrightarrow>
     (\<exists>t. f = ''AGB_'' @ t) \<or> (\<exists>p c. f = p @ c # ''ics'' \<and> c \<noteq> newline)
     \<or> (\<exists>t. f = ''Receipt-'' @ t)"
  unfolding shouldIgnoreFile_def ignoredBy_iff IgnorePatterns_def
  using MatchString_anchored_prefix [of "''AGB_''" f]
    MatchString_anchored_prefix [of "''Receipt-''" f]
    search_dot_ics [of True f]
  by (simp add: MustCompile_AGB MustCompile_Receipt MatchString_def)

text \<open>
  C4. \<open>shouldIgnoreFile\<close> is a function of the filename alone: it is true exactly when
  one of the configured patterns matches the filename; two pattern lists with the same
  patterns, in any order, give the same answer; the empty filename is skipped only if a
  pattern matches it, and none of the configured ones does; \<open>AGB_2024.pdf\<close> and
  \<open>event.ics\<close> are skipped, \<open>invoice.pdf\<close> is not.
\<close>

theorem shouldIgnoreFile_iff_pattern_matches:
  "(shouldIgnoreFile filename \<longleftrightarrow> (\<exists>p\<in>set IgnorePatterns. MatchString p filename))
   \<and> (set ps = set qs \<longrightarrow> ignoredBy ps filename = ignoredBy qs filename)
   \<and> (shouldIgnoreFile '''' \<longleftrightarrow> (\<exists>p\<in>set IgnorePatterns. MatchString p ''''))
   \<and> \<not> shouldIgnoreFile ''''
   \<and> shouldIgnoreFile ''AGB_2024.pdf''
   \<and> \<not> shouldIgnoreFile ''invoice.pdf''
   \<and> shouldIgnoreFile ''event.ics''"
proof -
  have a: "shouldIgnoreFile f \<longleftrightarrow> (\<exists>p\<in>set IgnorePatterns. MatchString p f)" for f
    by (simp add: shouldIgnoreFile_def ignoredBy_iff)
  have b: "set ps = set qs \<longrightarrow> ignoredBy ps filename = ignoredBy qs filename"
    by (simp add: ignoredBy_iff)
  have c: "\<not> shouldIgnoreFile ''''"
    by (simp add: shouldIgnoreFile_def IgnorePatterns_def MustCompile_def MatchString_def)
  have d: "shouldIgnoreFile ''AGB_2024.pdf''"
    by (simp add: shouldIgnoreFile_def IgnorePatterns_def MustCompile_def MatchString_def)
  have e: "\<not> shouldIgnoreFile ''invoice.pdf''"
    by (simp add: shouldIgnoreFile_def IgnorePatterns_def MustCompile_def MatchString_def)
  have f: "shouldIgnoreFile ''event.ics''"
    by (simp add: shouldIgnoreFile_def IgnorePatterns_def MustCompile_def MatchString_def
        newline_def)
  from a b c d e f show ?thesis by blast
qed

theorem shouldIgnoreFile_iff_pattern_matches_witness:
  "(shouldIgnoreFile ''event.ics''
      \<longleftrightarrow> (\<exists>p\<in>set IgnorePatterns. MatchString p ''event.ics''))
   \<and> set [MustCompile ''^AGB_'', MustCompile ''.ics$'']
       = set [MustCompile ''.ics$'', MustCompile ''^AGB_'']
   \<and> ignoredBy [MustCompile ''^AGB_'', MustCompile ''.ics$''] ''event.ics''
       = ignoredBy [MustCompile ''.ics$'', MustCompile ''^AGB_''] ''event.ics''
   \<and> MustCompile ''.ics$'' \<in> set IgnorePatterns
   \<and> MatchString (MustCompile ''.ics$'') ''event.ics''"
proof -
  have s: "set [MustCompile ''^AGB_'', MustCompile ''.ics$'']
       = set [MustCompile ''.ics$'', MustCompile ''^AGB_'']"
    by auto
  have m: "MatchString (MustCompile ''.ics$'') ''event.ics''"
    by (simp add: MustCompile_def MatchString_def newline_def)
  have i: "MustCompile ''.ics$'' \<in> set IgnorePatterns"
    by (simp add: IgnorePatterns_def)
  show ?thesis
    using shouldIgnoreFile_iff_pattern_matches
      [of "''event.ics''" "[MustCompile ''^AGB_'', MustCompile ''.ics$'']"
          "[MustCompile ''.ics$'', MustCompile ''^AGB_'']"] s m i
    by blast
qed

text \<open>
  C10, as the code has it. The ignore list holds exactly three patterns: the prefix
  \<open>AGB_\<close>, the suffix \<open>.ics\<close> whose dot matches any character except the line feed, and
  the prefix \<open>Receipt-\<close>. So every filename that begins with \<open>Receipt-\<close> is skipped, and
  so is every filename that ends with \<open>ics\<close> after at least one more character, when
  that character is not a line feed (\<open>statistics\<close> is skipped); the suffix pattern
  matches nothing else, and the three-character filename \<open>ics\<close> is not skipped.
\<close>

theorem IgnorePatterns_accept:
  "IgnorePatterns =
     [[BeginText, Lit CHR ''A'', Lit CHR ''G'', Lit CHR ''B'', Lit CHR ''_''],
      [AnyCharNotNL, Lit CHR ''i'', Lit CHR ''c'', Lit CHR ''s'', EndText],
      [BeginText, Lit CHR ''R'', Lit CHR ''e'', Lit CHR ''c'', Lit CHR ''e'', Lit CHR ''i'',
       Lit CHR ''p'', Lit CHR ''t'', Lit CHR ''-'']]
   \<and> shouldIgnoreFile (''Receipt-'' @ t)
   \<and> shouldIgnoreFile ''Receipt-123.pdf''
   \<and> (c \<noteq> CHR 0x0A \<longrightarrow> shouldIgnoreFile (p @ c # ''ics''))
   \<and> shouldIgnoreFile ''statistics''
   \<and> (MatchString (MustCompile ''.ics$'') f
        \<longleftrightarrow> (\<exists>p c. f = p @ c # ''ics'' \<and> c \<noteq> CHR 0x0A))
   \<and> \<not> MatchString (MustCompile ''.ics$'') ''ics''
   \<and> \<not> shouldIgnoreFile ''ics''"
proof -
  have a: "IgnorePatterns =
     [[BeginText, Lit CHR ''A'', Lit CHR ''G'', Lit CHR ''B'', Lit CHR ''_''],
      [AnyCharNotNL, Lit CHR ''i'', Lit CHR ''c'', Lit CHR ''s'', EndText],
      [BeginText, Lit CHR ''R'', Lit CHR ''e'', Lit CHR ''c'', Lit CHR ''e'', Lit CHR ''i'',
       Lit CHR ''p'', Lit CHR ''t'', Lit CHR ''-'']]"
    by (simp add: IgnorePatterns_def MustCompile_def)
  have b: "shouldIgnoreFile (''Receipt-'' @ t)" for t
    unfolding shouldIgnoreFile_char by blast
  have b': "shouldIgnoreFile ''Receipt-123.pdf''"
    using b [of "''123.pdf''"] by simp
  have c: "c \<noteq> CHR 0x0A \<longrightarrow> shouldIgnoreFile (p @ c # ''ics'')"
    unfolding shouldIgnoreFile_char newline_def by blast
  have c': "shouldIgnoreFile ''statistics''"
    by (simp add: shouldIgnoreFile_def IgnorePatterns_def MustCompile_def MatchString_def
        newline_def)
  have d: "MatchString (MustCompile ''.ics$'') f
        \<longleftrightarrow> (\<exists>p c. f = p @ c # ''ics'' \<and> c \<noteq> CHR 0x0A)"
    using search_dot_ics [of True f] by (simp add: MatchString_def newline_def)
  have e: "\<not> MatchString (MustCompile ''.ics$'') ''ics''"
    by (simp add: MustCompile_def MatchString_def)
  have e': "\<not> shouldIgnoreFile ''ics''"
    by (simp add: shouldIgnoreFile_def IgnorePatterns_def MustCompile_def MatchString_def)
  from a b b' c c' d e e' show ?thesis by blast
qed

theorem IgnorePatterns_accept_witness:
  "CHR ''t'' \<noteq> CHR 0x0A \<and> shouldIgnoreFile ''statistics''
   \<and> shouldIgnoreFile ''Receipt-123.pdf''
   \<and> MatchString (MustCompile ''.ics$'') ''event.ics''"
proof -
  have n: "CHR ''t'' \<noteq> CHR 0x0A" by simp
  have "\<exists>p c. ''event.ics'' = p @ c # ''ics'' \<and> c \<noteq> CHR 0x0A"
    by (rule exI [of _ "''event''"], rule exI [of _ "CHR ''.''"]) simp
  then show ?thesis
    using IgnorePatterns_accept [of "''123.pdf''" "CHR ''t''" "''statis''" "''event.ics''"] n
    by simp
qed

text \<open>
  The claim C10 as written fails: the four-character filename made of a line feed and
  \<open>ics\<close> has length at least four and ends with \<open>ics\<close>, and it is not skipped.
\<close>

theorem dot_ics_line_feed_counterexample:
  "4 \<le> length [CHR 0x0A, CHR ''i'', CHR ''c'', CHR ''s'']
   \<and> drop 1 [CHR 0x0A, CHR ''i'', CHR ''c'', CHR ''s''] = ''ics''
   \<and> \<not> shouldIgnoreFile [CHR 0x0A, CHR ''i'', CHR ''c'', CHR ''s'']"
  by (simp add: shouldIgnoreFile_def IgnorePatterns_def MustCompile_def MatchString_def
      newline_def)

section \<open>Properties of the mailbox state mutator\<close>

lemma emitted_append [simp]: "emitted tr (tr @ new) = new"
  by (simp add: emitted_def)


text \<open>The three ways \<open>ensureFolderExists\<close> can go.\<close>

lemma ensureFolderExists_cases:
  obtains (list_failed) err where
      "imapList w tr '''' n = Inl err"
      "ensureFolderExists w n tr
         = (Some (Wrap ''list failed: '' err), tr @ [Cmd (ListMailboxes '''' n)])"
  | (listed) ms where
      "imapList w tr '''' n = Inr ms" "folderListed ms n"
      "ensureFolderExists w n tr = (None, tr @ [Cmd (ListMailboxes '''' n)])"
  | (created) ms r where
      "imapList w tr '''' n = Inr ms" "\<not> folderListed ms n"
      "ensureFolderExists w n tr
         = (r, tr @ [Cmd (ListMailboxes '''' n), Log (LCreatingFolder n), Cmd (Create n)])"
proof (cases "imapList w tr '''' n")
  case (Inl err)
  then have "ensureFolderExists w n tr
         = (Some (Wrap ''list failed: '' err), tr @ [Cmd (ListMailboxes '''' n)])"
    by (simp add: ensureFolderExists_def)
  with Inl show ?thesis by (rule list_failed)
next
  case (Inr ms)
  show ?thesis
  proof (cases "folderListed ms n")
    case True
    with Inr have "ensureFolderExists w n tr = (None, tr @ [Cmd (ListMailboxes '''' n)])"
      by (simp add: ensureFolderExists_def)
    with Inr True show ?thesis by (rule listed)
  next
    case False
    with Inr have "\<exists>r. ensureFolderExists w n tr
         = (r, tr @ [Cmd (ListMailboxes '''' n), Log (LCreatingFolder n), Cmd (Create n)])"
      by (simp add: ensureFolderExists_def Let_def split: option.splits)
    then obtain r where "ensureFolderExists w n tr
         = (r, tr @ [Cmd (ListMailboxes '''' n), Log (LCreatingFolder n), Cmd (Create n)])"
      by blast
    with Inr False show ?thesis by (rule created)
  qed
qed

text \<open>After the folder is ensured, the move sends copy, store and expunge in this order
  and stops at the first failure.\<close>

lemma moveToFolder_after_ensure:
  assumes "ensureFolderExists w n tr = (None, tr1)"
  obtains (copy_failed) err where
      "imapCopy w tr1 uid n = Some err"
      "moveToFolder w uid n tr = (Some (Wrap ''copy failed: '' err), tr1 @ [Cmd (Copy uid n)])"
  | (store_failed) err where
      "imapCopy w tr1 uid n = None"
      "moveToFolder w uid n tr
         = (Some (Wrap ''store flags failed: '' err),
            tr1 @ [Cmd (Copy uid n), Cmd (StoreAddDeleted uid)])"
  | (expunged) r where
      "imapCopy w tr1 uid n = None"
      "moveToFolder w uid n tr
         = (r, tr1 @ [Cmd (Copy uid n), Cmd (StoreAddDeleted uid), Cmd Expunge])"
      "r = None \<or> (\<exists>err. r = Some (Wrap ''expunge failed: '' err))"
proof (cases "imapCopy w tr1 uid n")
  case (Some err)
  with assms have "moveToFolder w uid n tr
           = (Some (Wrap ''copy failed: '' err), tr1 @ [Cmd (Copy uid n)])"
    by (simp add: moveToFolder_def)
  with Some show ?thesis by (rule copy_failed)
next
  case None
  note copy = None
  show ?thesis
  proof (cases "imapStore w (tr1 @ [Cmd (Copy uid n)]) uid")
    case (Some err)
    with assms copy have "moveToFolder w uid n tr
           = (Some (Wrap ''store flags failed: '' err),
              tr1 @ [Cmd (Copy uid n), Cmd (StoreAddDeleted uid)])"
      by (simp add: moveToFolder_def)
    with copy show ?thesis by (rule store_failed)
  next
    case None
    note store = None
    show ?thesis
    proof (cases "imapExpunge w (tr1 @ [Cmd (Copy uid n), Cmd (StoreAddDeleted uid)])")
      case (Some err)
      with assms copy store have "moveToFolder w uid n tr
           = (Some (Wrap ''expunge failed: '' err),
              tr1 @ [Cmd (Copy uid n), Cmd (StoreAddDeleted uid), Cmd Expunge])"
        by (simp add: moveToFolder_def)
      with copy show ?thesis by (rule expunged) simp
    next
      case None
      with assms copy store have "moveToFolder w uid n tr
           = (None, tr1 @ [Cmd (Copy uid n), Cmd (StoreAddDeleted uid), Cmd Expunge])"
        by (simp add: moveToFolder_def)
      with copy show ?thesis by (rule expunged) simp
    qed
  qed
qed



section \<open>Properties of the upload client\<close>

text \<open>
  C6. \<open>uploadToLexoffice\<close> sends one request that carries the file, and its result
  depends on the answer only through the status: for every response with a status from 200
  to 299 the result is success, whatever the body; for every other status the result is an
  error whose text holds the status in decimal and the body; when the request itself
  fails, the result is the error of the transport.
\<close>

theorem uploadToLexoffice_status:
  "\<exists>req. snd (uploadToLexoffice w filename data config tr) = tr @ [Cmd (HTTPDo req)]
     \<and> FormFile req = (''file'', filename, data)
     \<and> (\<forall>resp. httpDo w tr req = Inr resp \<longrightarrow> 200 \<le> StatusCode resp \<longrightarrow> StatusCode resp < 300
          \<longrightarrow> fst (uploadToLexoffice w filename data config tr) = None)
     \<and> (\<forall>resp. httpDo w tr req = Inr resp \<longrightarrow> (StatusCode resp < 200 \<or> 300 \<le> StatusCode resp)
          \<longrightarrow> (\<exists>e. fst (uploadToLexoffice w filename data config tr) = Some e
                 \<and> error_text e = ''upload failed with status '' @ itoa (StatusCode resp)
                                   @ '': '' @ RespBody resp))
     \<and> (\<forall>err. httpDo w tr req = Inl err
          \<longrightarrow> fst (uploadToLexoffice w filename data config tr) = Some err)"
  by (auto simp: uploadToLexoffice_def Let_def split: sum.splits)

theorem uploadToLexoffice_status_witness:
  "fst (uploadToLexoffice (exampleWorld [] 204) ''invoice.pdf'' ''%PDF'' exampleConfig []) = None
   \<and> (\<exists>e. fst (uploadToLexoffice (exampleWorld [] 500) ''invoice.pdf'' ''%PDF'' exampleConfig [])
            = Some e \<and> error_text e = ''upload failed with status 500: {}'')"
proof -
  have i: "itoa 500 = ''500''"
    by (simp add: itoa_def digits.simps digit_def)
  have a: "httpDo (exampleWorld [] 204) [] req = Inr \<lparr> StatusCode = 204, RespBody = ''{}'' \<rparr>"
    for req
    by (simp add: exampleWorld_def)
  have b: "httpDo (exampleWorld [] 500) [] req = Inr \<lparr> StatusCode = 500, RespBody = ''{}'' \<rparr>"
    for req
    by (simp add: exampleWorld_def)
  obtain req1 where r1:
    "\<forall>resp. httpDo (exampleWorld [] 204) [] req1 = Inr resp \<longrightarrow> 200 \<le> StatusCode resp
        \<longrightarrow> StatusCode resp < 300
        \<longrightarrow> fst (uploadToLexoffice (exampleWorld [] 204) ''invoice.pdf'' ''%PDF'' exampleConfig [])
             = None"
    using uploadToLexoffice_status
      [of "exampleWorld [] 204" "''invoice.pdf''" "''%PDF''" exampleConfig "[]"]
    by blast
  obtain req2 where r2:
    "\<forall>resp. httpDo (exampleWorld [] 500) [] req2 = Inr resp
        \<longrightarrow> (StatusCode resp < 200 \<or> 300 \<le> StatusCode resp)
        \<longrightarrow> (\<exists>e. fst (uploadToLexoffice (exampleWorld [] 500) ''invoice.pdf'' ''%PDF''
                        exampleConfig []) = Some e
               \<and> error_text e = ''upload failed with status '' @ itoa (StatusCode resp)
                                   @ '': '' @ RespBody resp)"
    using uploadToLexoffice_status
      [of "exampleWorld [] 500" "''invoice.pdf''" "''%PDF''" exampleConfig "[]"]
    by blast
  from r1 a [of req1]
  have one: "fst (uploadToLexoffice (exampleWorld [] 204) ''invoice.pdf'' ''%PDF'' exampleConfig [])
      = None"
    by simp
  from r2 b [of req2] i
  have two: "\<exists>e. fst (uploadToLexoffice (exampleWorld [] 500) ''invoice.pdf'' ''%PDF''
                        exampleConfig []) = Some e
      \<and> error_text e = ''upload failed with status 500: {}''"
    by simp
  from one two show ?thesis by (rule conjI)
qed

section \<open>Properties of the message processor\<close>

lemma uploads_append [simp]: "uploads (xs @ ys) = uploads xs @ uploads ys"
  by (simp add: uploads_def map_filter_def)

lemma uploads_Nil [simp]: "uploads [] = []"
  by (simp add: uploads_def map_filter_def)

lemma uploads_Cons [simp]:
  "uploads (e # es) = (case uploadOf e of None \<Rightarrow> uploads es | Some f \<Rightarrow> f # uploads es)"
  by (simp add: uploads_def map_filter_def split: option.splits)

lemma uploadToLexoffice_trace:
  "\<exists>req. snd (uploadToLexoffice w filename data config tr) = tr @ [Cmd (HTTPDo req)]
         \<and> FormFile req = (''file'', filename, data)"
  by (simp add: uploadToLexoffice_def Let_def split: sum.splits)

text \<open>One turn of the loop over the parts: the events it adds come from the loop, none of
  them is an upload of an ignored file, and \<open>hasAttachments\<close> is set exactly by an
  attachment header.\<close>

lemma processParts_step:
  "\<exists>new. (\<forall>e\<in>set new. partEvent e) \<and> (\<forall>f\<in>set (uploads new). \<not> shouldIgnoreFile f) \<and>
     processParts w config (Inr part # rest) has tr
       = processParts w config rest (has \<or> Header part \<noteq> InlineHeader) (tr @ new)"
proof (cases "Header part")
  case InlineHeader
  then have "processParts w config (Inr part # rest) has tr
       = processParts w config rest (has \<or> Header part \<noteq> InlineHeader) (tr @ [])"
    by simp
  moreover have "\<forall>e\<in>set []. partEvent e" by simp
  moreover have "\<forall>f\<in>set (uploads []). \<not> shouldIgnoreFile f" by simp
  ultimately show ?thesis by blast
next
  case (AttachmentHeader filename)
  let ?tr1 = "tr @ [Log (LFoundAttachment filename)]"
  show ?thesis
  proof (cases "shouldIgnoreFile filename")
    case True
    let ?new = "[Log (LFoundAttachment filename), Log (LSkipping filename)]"
    from True AttachmentHeader have "processParts w config (Inr part # rest) has tr
       = processParts w config rest (has \<or> Header part \<noteq> InlineHeader) (tr @ ?new)"
      by simp
    moreover have "\<forall>e\<in>set ?new. partEvent e" by simp
    moreover have "\<forall>f\<in>set (uploads ?new). \<not> shouldIgnoreFile f" by simp
    ultimately show ?thesis by blast
  next
    case False
    show ?thesis
    proof (cases "Body part")
      case (Inl err)
      let ?new = "[Log (LFoundAttachment filename), Log (LReadFailed err)]"
      from Inl False AttachmentHeader have "processParts w config (Inr part # rest) has tr
         = processParts w config rest (has \<or> Header part \<noteq> InlineHeader) (tr @ ?new)"
        by simp
      moreover have "\<forall>e\<in>set ?new. partEvent e" by simp
      moreover have "\<forall>f\<in>set (uploads ?new). \<not> shouldIgnoreFile f" by simp
      ultimately show ?thesis by blast
    next
      case (Inr data)
      obtain req where req:
        "snd (uploadToLexoffice w filename data config ?tr1) = ?tr1 @ [Cmd (HTTPDo req)]"
        "FormFile req = (''file'', filename, data)"
        using uploadToLexoffice_trace by blast
      obtain r where r:
        "uploadToLexoffice w filename data config ?tr1 = (r, ?tr1 @ [Cmd (HTTPDo req)])"
        using req(1) by (metis prod.collapse)
      define l where
        "l = (case r of Some err \<Rightarrow> LUploadFailed err | None \<Rightarrow> LUploaded filename)"
      let ?new = "[Log (LFoundAttachment filename), Cmd (HTTPDo req), Log l]"
      from r Inr False AttachmentHeader have "processParts w config (Inr part # rest) has tr
         = processParts w config rest (has \<or> Header part \<noteq> InlineHeader) (tr @ ?new)"
        by (cases r) (simp_all add: l_def)
      moreover have "\<forall>e\<in>set ?new. partEvent e"
        by (cases r) (simp_all add: l_def)
      moreover have "\<forall>f\<in>set (uploads ?new). \<not> shouldIgnoreFile f"
        using False req(2) by simp
      ultimately show ?thesis by blast
    qed
  qed
qed

lemma processParts_emits:
  "\<exists>new. snd (processParts w config ps has tr) = tr @ new \<and> (\<forall>e\<in>set new. partEvent e)
     \<and> (\<forall>f\<in>set (uploads new). \<not> shouldIgnoreFile f)"
proof (induction ps arbitrary: has tr)
  case Nil
  have "snd (processParts w config [] has tr) = tr @ []" by simp
  moreover have "\<forall>e\<in>set []. partEvent e" by simp
  moreover have "\<forall>f\<in>set (uploads []). \<not> shouldIgnoreFile f" by simp
  ultimately show ?case by blast
next
  case (Cons r ps)
  show ?case
  proof (cases r)
    case (Inl err)
    then have "snd (processParts w config (r # ps) has tr) = tr @ []" by simp
    moreover have "\<forall>e\<in>set []. partEvent e" by simp
    moreover have "\<forall>f\<in>set (uploads []). \<not> shouldIgnoreFile f" by simp
    ultimately show ?thesis by blast
  next
    case (Inr part)
    obtain new where new: "\<forall>e\<in>set new. partEvent e"
      "\<forall>f\<in>set (uploads new). \<not> shouldIgnoreFile f"
      "processParts w config (Inr part # ps) has tr
       = processParts w config ps (has \<or> Header part \<noteq> InlineHeader) (tr @ new)"
      using processParts_step by blast
    obtain new2 where new2:
      "snd (processParts w config ps (has \<or> Header part \<noteq> InlineHeader) (tr @ new))
        = (tr @ new) @ new2"
      "\<forall>e\<in>set new2. partEvent e" "\<forall>f\<in>set (uploads new2). \<not> shouldIgnoreFile f"
      using Cons.IH by blast
    have "snd (processParts w config (r # ps) has tr) = tr @ (new @ new2)"
      using Inr new(3) new2(1) by simp
    moreover have "\<forall>e\<in>set (new @ new2). partEvent e" using new(1) new2(2) by auto
    moreover have "\<forall>f\<in>set (uploads (new @ new2)). \<not> shouldIgnoreFile f"
      using new(2) new2(3) by auto
    ultimately show ?thesis by blast
  qed
qed

text \<open>When every call of \<open>NextPart\<close> succeeds, the loop ends without an error and
  \<open>hasAttachments\<close> tells whether an attachment part was seen.\<close>

lemma processParts_result:
  "fst (processParts w config (map Inr parts) has tr)
     = (None, has \<or> (\<exists>p\<in>set parts. Header p \<noteq> InlineHeader))"
proof (induction parts arbitrary: has tr)
  case Nil
  then show ?case by simp
next
  case (Cons part parts)
  obtain new where "processParts w config (Inr part # map Inr parts) has tr
       = processParts w config (map Inr parts) (has \<or> Header part \<noteq> InlineHeader) (tr @ new)"
    using processParts_step by blast
  then show ?case using Cons.IH by auto
qed

text \<open>Parts that are not attachments leave the trace and \<open>hasAttachments\<close> as they are.\<close>

lemma processParts_inline:
  assumes "\<forall>p. Inr p \<in> set stream \<longrightarrow> Header p = InlineHeader"
  shows "snd (processParts w config stream has tr) = tr
     \<and> snd (fst (processParts w config stream has tr)) = has
     \<and> ((\<forall>err. Inl err \<notin> set stream) \<longrightarrow> fst (fst (processParts w config stream has tr)) = None)"
  using assms
proof (induction stream)
  case Nil
  then show ?case by simp
next
  case (Cons r stream)
  show ?case
  proof (cases r)
    case (Inl err)
    then show ?thesis by auto
  next
    case (Inr part)
    with Cons.prems have "Header part = InlineHeader" by simp
    with Inr Cons show ?thesis by simp
  qed
qed

lemma mutatorCall_partEvent: "partEvent e \<Longrightarrow> \<not> mutatorCall e"
  by (cases e rule: partEvent.cases) simp_all

lemma filter_none: "(\<forall>e\<in>set xs. \<not> P e) \<Longrightarrow> filter P xs = []"
  by (induction xs) auto
lemma mutatorCall_moveSteps [simp]: "filter mutatorCall (moveSteps uid n create) = moveSteps uid n create"
  by (simp add: moveSteps_def)

text \<open>One run of \<open>moveToFolder\<close>, as seen in the trace: only events of the mutator, whose
  commands are a non-empty initial segment of the steps of a move, with one listing; the
  segment is the whole sequence when the move succeeds.\<close>

lemma moveToFolder_segment:
  "\<exists>new. snd (moveToFolder w uid n tr) = tr @ new
     \<and> (\<forall>e\<in>set new. moveEvent e)
     \<and> filter mutatorCall new \<noteq> []
     \<and> filter mutatorCall new
         = take (length (filter mutatorCall new)) (moveSteps uid n (Cmd (Create n) \<in> set new))
     \<and> length (filter (\<lambda>e. e = Cmd (ListMailboxes '''' n)) new) = 1
     \<and> hd new = Cmd (ListMailboxes '''' n)
     \<and> (fst (moveToFolder w uid n tr) = None
          \<longrightarrow> filter mutatorCall new = moveSteps uid n (Cmd (Create n) \<in> set new))"
proof -
  let ?L = "Cmd (ListMailboxes '''' n)"
  let ?E = "[?L, Log (LCreatingFolder n), Cmd (Create n)]"
  let ?P = "\<lambda>new. snd (moveToFolder w uid n tr) = tr @ new
     \<and> (\<forall>e\<in>set new. moveEvent e)
     \<and> filter mutatorCall new \<noteq> []
     \<and> filter mutatorCall new
         = take (length (filter mutatorCall new)) (moveSteps uid n (Cmd (Create n) \<in> set new))
     \<and> length (filter (\<lambda>e. e = Cmd (ListMailboxes '''' n)) new) = 1
     \<and> hd new = Cmd (ListMailboxes '''' n)
     \<and> (fst (moveToFolder w uid n tr) = None
          \<longrightarrow> filter mutatorCall new = moveSteps uid n (Cmd (Create n) \<in> set new))"
  show ?thesis
  proof (cases w tr n rule: ensureFolderExists_cases)
    case (list_failed err)
    then have "moveToFolder w uid n tr = (Some (Wrap ''list failed: '' err), tr @ [?L])"
      by (simp add: moveToFolder_def)
    then have "?P [?L]" by (simp add: moveSteps_def)
    then show ?thesis by (rule exI)
  next
    case (listed ms)
    from listed(3) show ?thesis
    proof (cases rule: moveToFolder_after_ensure [where uid = uid])
      case (copy_failed err)
      then have "?P [?L, Cmd (Copy uid n)]" by (simp add: moveSteps_def)
      then show ?thesis by (rule exI)
    next
      case (store_failed err)
      then have "?P [?L, Cmd (Copy uid n), Cmd (StoreAddDeleted uid)]"
        by (simp add: moveSteps_def)
      then show ?thesis by (rule exI)
    next
      case (expunged r)
      then have "?P [?L, Cmd (Copy uid n), Cmd (StoreAddDeleted uid), Cmd Expunge]"
        by (simp add: moveSteps_def)
      then show ?thesis by (rule exI)
    qed
  next
    case (created ms r0)
    show ?thesis
    proof (cases r0)
      case (Some err)
      with created have "moveToFolder w uid n tr = (Some err, tr @ ?E)"
        by (simp add: moveToFolder_def)
      then have "?P ?E" by (simp add: moveSteps_def)
      then show ?thesis by (rule exI)
    next
      case None
      with created have e: "ensureFolderExists w n tr = (None, tr @ ?E)" by simp
      from e show ?thesis
      proof (cases rule: moveToFolder_after_ensure [where uid = uid])
        case (copy_failed err)
        then have "?P (?E @ [Cmd (Copy uid n)])" by (simp add: moveSteps_def)
        then show ?thesis by (rule exI)
      next
        case (store_failed err)
        then have "?P (?E @ [Cmd (Copy uid n), Cmd (StoreAddDeleted uid)])"
          by (simp add: moveSteps_def)
        then show ?thesis by (rule exI)
      next
        case (expunged r)
        then have "?P (?E @ [Cmd (Copy uid n), Cmd (StoreAddDeleted uid), Cmd Expunge])"
          by (simp add: moveSteps_def)
        then show ?thesis by (rule exI)
      qed
    qed
  qed
qed

text \<open>\<open>processMessage\<close> on a message that is fetched and whose parts are all read.\<close>

lemma processMessage_parsed:
  assumes "imapFetchBody w (tr @ [Log (LProcessingUID uid)]) uid = Inr (msg # others)"
    and "BodySection msg = literal # further"
    and "mailCreateReader w literal = Inr (map Inr parts)"
    and "tr2 = snd (processParts w config (map Inr parts) False
                      (tr @ [Log (LProcessingUID uid), Cmd (FetchBody uid)]))"
  shows "processMessage w uid config tr =
     (if \<exists>p\<in>set parts. Header p \<noteq> InlineHeader then
        (case moveToFolder w uid ''done'' tr2 of
           (Some err, tr3) \<Rightarrow> (Some (Wrap ''failed to move message: '' err), tr3)
         | (None, tr3) \<Rightarrow> (None, tr3 @ [Log (LMoved uid)]))
      else (None, tr2 @ [Log (LNoAttachments uid)]))"
proof -
  let ?tr1 = "tr @ [Log (LProcessingUID uid), Cmd (FetchBody uid)]"
  have "fst (processParts w config (map Inr parts) False ?tr1)
      = (None, \<exists>p\<in>set parts. Header p \<noteq> InlineHeader)"
    using processParts_result [of w config parts False ?tr1] by simp
  then have p: "processParts w config (map Inr parts) False ?tr1
      = ((None, \<exists>p\<in>set parts. Header p \<noteq> InlineHeader), tr2)"
    using assms(4) by (metis prod.collapse)
  show ?thesis
    using assms(1,2,3) p by (simp add: processMessage_def)
qed
lemma uploads_moveEvents: "(\<forall>e\<in>set xs. moveEvent e) \<Longrightarrow> uploads xs = []"
proof (induction xs)
  case Nil
  then show ?case by simp
next
  case (Cons e xs)
  then have "moveEvent e" by simp
  then have "uploadOf e = None" by (cases e rule: uploadOf.cases) simp_all
  with Cons show ?case by simp
qed

lemma processingStart_partEvent: "partEvent e \<Longrightarrow> \<not> processingStart e"
  by (cases e rule: partEvent.cases) simp_all

lemma processingStart_moveEvent: "moveEvent e \<Longrightarrow> \<not> processingStart e"
  by (cases e rule: moveEvent.cases) simp_all

text \<open>What one call of \<open>processMessage\<close> adds to the trace: the line that starts the
  processing, and then events among which there is no upload of an ignored file and no
  other start of processing.\<close>

lemma processMessage_emits:
  "\<exists>new. snd (processMessage w uid config tr) = tr @ Log (LProcessingUID uid) # new
     \<and> (\<forall>f\<in>set (uploads new). \<not> shouldIgnoreFile f)
     \<and> filter processingStart new = []"
proof -
  let ?tr0 = "tr @ [Log (LProcessingUID uid)]"
  let ?tr1 = "?tr0 @ [Cmd (FetchBody uid)]"
  let ?Q = "\<lambda>new. (\<forall>f\<in>set (uploads new). \<not> shouldIgnoreFile f) \<and> filter processingStart new = []"
  let ?R = "\<lambda>new. snd (processMessage w uid config tr) = tr @ Log (LProcessingUID uid) # new
     \<and> ?Q new"
  have short: "snd (processMessage w uid config tr) = ?tr1 \<Longrightarrow> ?thesis"
  proof -
    assume "snd (processMessage w uid config tr) = ?tr1"
    then have "?R [Cmd (FetchBody uid)]" by simp
    then show ?thesis by (rule exI)
  qed
  show ?thesis
  proof (cases "imapFetchBody w ?tr0 uid")
    case (Inl err)
    then have "snd (processMessage w uid config tr) = ?tr1"
      by (simp add: processMessage_def)
    then show ?thesis by (rule short)
  next
    case (Inr msgs)
    note fetch = Inr
    show ?thesis
    proof (cases msgs)
      case Nil
      with fetch have "snd (processMessage w uid config tr) = ?tr1"
        by (simp add: processMessage_def)
      then show ?thesis by (rule short)
    next
      case (Cons msg others)
      note msgs = Cons
      show ?thesis
      proof (cases "BodySection msg")
        case Nil
        with fetch msgs have "snd (processMessage w uid config tr) = ?tr1"
          by (simp add: processMessage_def)
        then show ?thesis by (rule short)
      next
        case (Cons literal further)
        note body = Cons
        show ?thesis
        proof (cases "mailCreateReader w literal")
          case (Inl err)
          with fetch msgs body have "snd (processMessage w uid config tr) = ?tr1"
            by (simp add: processMessage_def)
          then show ?thesis by (rule short)
        next
          case (Inr mr)
          obtain pnew where pnew: "snd (processParts w config mr False ?tr1) = ?tr1 @ pnew"
            "\<forall>e\<in>set pnew. partEvent e" "\<forall>f\<in>set (uploads pnew). \<not> shouldIgnoreFile f"
            using processParts_emits by blast
          have pq: "filter processingStart pnew = []"
            using pnew(2) processingStart_partEvent by (intro filter_none) blast
          obtain r has where p: "processParts w config mr False ?tr1 = ((r, has), ?tr1 @ pnew)"
            using pnew(1) by (metis prod.collapse)
          show ?thesis
          proof (cases r)
            case (Some err)
            with fetch msgs body Inr p
            have "snd (processMessage w uid config tr) = ?tr1 @ pnew"
              by (simp add: processMessage_def)
            then have "?R (Cmd (FetchBody uid) # pnew)" using pnew(3) pq by simp
            then show ?thesis by (rule exI)
          next
            case None
            show ?thesis
            proof (cases has)
              case False
              with None fetch msgs body Inr p
              have "snd (processMessage w uid config tr)
                  = ?tr1 @ pnew @ [Log (LNoAttachments uid)]"
                by (simp add: processMessage_def)
              then have "?R (Cmd (FetchBody uid) # pnew @ [Log (LNoAttachments uid)])"
                using pnew(3) pq by simp
              then show ?thesis by (rule exI)
            next
              case True
              obtain mnew where mnew:
                "snd (moveToFolder w uid ''done'' (?tr1 @ pnew)) = (?tr1 @ pnew) @ mnew"
                "\<forall>e\<in>set mnew. moveEvent e"
                using moveToFolder_segment by blast
              have mq: "filter processingStart mnew = []"
                using mnew(2) processingStart_moveEvent by (intro filter_none) blast
              have mu: "uploads mnew = []" using mnew(2) by (rule uploads_moveEvents)
              obtain mr where m:
                "moveToFolder w uid ''done'' (?tr1 @ pnew) = (mr, (?tr1 @ pnew) @ mnew)"
                using mnew(1) by (metis prod.collapse)
              show ?thesis
              proof (cases mr)
                case (Some err)
                with True None fetch msgs body Inr p m
                have "snd (processMessage w uid config tr) = ?tr1 @ pnew @ mnew"
                  by (simp add: processMessage_def)
                then have "?R (Cmd (FetchBody uid) # pnew @ mnew)"
                  using pnew(3) pq mq mu by simp
                then show ?thesis by (rule exI)
              next
                case mnone: None
                with True None fetch msgs body Inr p m
                have "snd (processMessage w uid config tr)
                    = ?tr1 @ pnew @ mnew @ [Log (LMoved uid)]"
                  by (simp add: processMessage_def)
                then have "?R (Cmd (FetchBody uid) # pnew @ mnew @ [Log (LMoved uid)])"
                  using pnew(3) pq mq mu by simp
                then show ?thesis by (rule exI)
              qed
            qed
          qed
        qed
      qed
    qed
  qed
qed

subsection \<open>Outcomes of \<open>processMessage\<close>\<close>

text \<open>The definitions to unfold when the program is run in an example world.\<close>

lemmas run_defs =
  processMessage_def moveToFolder_def ensureFolderExists_def uploadToLexoffice_def
  exampleWorld_def exampleConfig_def shouldIgnoreFile_def IgnorePatterns_def MustCompile_def
  MatchString_def newline_def EqualFold_def toLower_def itoa_def digits.simps digit_def Let_def
  textPart_def invoicePart_def termsPart_def brokenPart_def

text \<open>
  C3. For a message that is fetched and whose parts hold no attachment header,
  \<open>processMessage\<close> sends no command of the mailbox state mutator: no listing, creation,
  copy, store or expunge is added to the trace. When all its parts are read, the result is
  \<open>nil\<close> and the only events are the start of the processing, the fetch of the body and
  the line that says the message has no attachments: the message stays where it is.
\<close>

theorem processMessage_without_attachments:
  assumes fetch: "imapFetchBody w (tr @ [Log (LProcessingUID uid)]) uid = Inr (msg # others)"
    and body: "BodySection msg = literal # further"
    and parse: "mailCreateReader w literal = Inr stream"
    and inline: "\<forall>p. Inr p \<in> set stream \<longrightarrow> Header p = InlineHeader"
  shows "filter mutatorCall (snd (processMessage w uid config tr)) = filter mutatorCall tr
     \<and> ((\<forall>err. Inl err \<notin> set stream)
          \<longrightarrow> processMessage w uid config tr
                = (None, tr @ [Log (LProcessingUID uid), Cmd (FetchBody uid),
                               Log (LNoAttachments uid)]))"
proof -
  let ?tr1 = "tr @ [Log (LProcessingUID uid), Cmd (FetchBody uid)]"
  have p: "snd (processParts w config stream False ?tr1) = ?tr1"
    "snd (fst (processParts w config stream False ?tr1)) = False"
    "(\<forall>err. Inl err \<notin> set stream) \<longrightarrow> fst (fst (processParts w config stream False ?tr1)) = None"
    using processParts_inline [OF inline, of w config False ?tr1] by simp_all
  obtain r where r: "processParts w config stream False ?tr1 = ((r, False), ?tr1)"
    using p(1,2) by (metis prod.collapse)
  have a: "filter mutatorCall (snd (processMessage w uid config tr)) = filter mutatorCall tr"
    using fetch body parse r by (cases r) (simp_all add: processMessage_def)
  have b: "processMessage w uid config tr
        = (None, tr @ [Log (LProcessingUID uid), Cmd (FetchBody uid), Log (LNoAttachments uid)])"
    if "\<forall>err. Inl err \<notin> set stream"
  proof -
    from that p(3) r have "r = None" by simp
    with fetch body parse r show ?thesis by (simp add: processMessage_def)
  qed
  from a b show ?thesis by blast
qed

theorem processMessage_without_attachments_witness:
  "processMessage (exampleWorld [Inr textPart] 200) 9 exampleConfig []
     = (None, [Log (LProcessingUID 9), Cmd (FetchBody 9), Log (LNoAttachments 9)])
   \<and> filter mutatorCall (snd (processMessage (exampleWorld [Inr textPart] 200) 9 exampleConfig []))
     = []"
proof -
  let ?w = "exampleWorld [Inr textPart] 200"
  have fetch: "imapFetchBody ?w ([] @ [Log (LProcessingUID 9)]) 9
      = Inr (\<lparr> UID = 9, BodySection = [''raw''] \<rparr> # [])"
    by (simp add: exampleWorld_def)
  have body: "BodySection \<lparr> UID = (9::uid), BodySection = [''raw''] \<rparr> = ''raw'' # []"
    by simp
  have parse: "mailCreateReader ?w ''raw'' = Inr [Inr textPart]"
    by (simp add: exampleWorld_def)
  have inline: "\<forall>p. Inr p \<in> set [Inr textPart :: error + Part] \<longrightarrow> Header p = InlineHeader"
    by (simp add: textPart_def)
  have noerr: "\<forall>err. Inl err \<notin> set [Inr textPart :: error + Part]"
    by simp
  show ?thesis
    using processMessage_without_attachments [OF fetch body parse inline, of exampleConfig] noerr
    by simp
qed

text \<open>
  The claim C1 as written fails. Message 9 has one attachment, \<open>invoice.pdf\<close>, which is
  not skipped; its upload is answered with status 500 and fails. The message is moved all
  the same: the mutator lists the folder, copies the message, flags it and expunges it, and
  the result is \<open>nil\<close>.
\<close>

theorem failed_upload_still_moved_counterexample:
  "processMessage (exampleWorld [Inr invoicePart] 500) 9 exampleConfig []
     = (None,
        [Log (LProcessingUID 9), Cmd (FetchBody 9),
         Log (LFoundAttachment ''invoice.pdf''),
         Cmd (HTTPDo \<lparr> Method = ''POST'', URL = ''https://api.lexoffice.io/v1/files'',
                         Authorization = ''Bearer key'', Accept = ''application/json'',
                         FormFile = (''file'', ''invoice.pdf'', ''%PDF''),
                         FormFields = [(''type'', ''voucher'')] \<rparr>),
         Log (LUploadFailed (Err ''upload failed with status 500: {}'')),
         Cmd (ListMailboxes '''' ''done''), Cmd (Copy 9 ''done''),
         Cmd (StoreAddDeleted 9), Cmd Expunge, Log (LMoved 9)])"
  by (simp add: run_defs)

text \<open>
  C1, as the code has it. For every message that is fetched, whose parts are all read and
  hold at least one attachment header, the loop over the parts sends no command of the
  mailbox state mutator, and after the loop \<open>processMessage\<close> calls \<open>moveToFolder\<close> for
  that message and the folder \<open>done\<close>, whatever happened to the attachments: a payload
  that cannot be read and an upload that fails are logged by the loop and change nothing
  else. The result of \<open>processMessage\<close> is the result of the move.
\<close>

theorem processMessage_moves_whatever_the_uploads:
  assumes fetch: "imapFetchBody w (tr @ [Log (LProcessingUID uid)]) uid = Inr (msg # others)"
    and body: "BodySection msg = literal # further"
    and parse: "mailCreateReader w literal = Inr (map Inr parts)"
    and attach: "\<exists>p\<in>set parts. Header p \<noteq> InlineHeader"
    and tr2: "tr2 = snd (processParts w config (map Inr parts) False
                           (tr @ [Log (LProcessingUID uid), Cmd (FetchBody uid)]))"
  shows "filter mutatorCall tr2 = filter mutatorCall tr
     \<and> processMessage w uid config tr
         = (case moveToFolder w uid ''done'' tr2 of
              (Some err, tr3) \<Rightarrow> (Some (Wrap ''failed to move message: '' err), tr3)
            | (None, tr3) \<Rightarrow> (None, tr3 @ [Log (LMoved uid)]))
     \<and> (\<exists>rest. snd (processMessage w uid config tr)
                 = tr2 @ Cmd (ListMailboxes '''' ''done'') # rest)"
proof -
  let ?tr1 = "tr @ [Log (LProcessingUID uid), Cmd (FetchBody uid)]"
  obtain pnew where pnew: "tr2 = ?tr1 @ pnew" "\<forall>e\<in>set pnew. partEvent e"
    using processParts_emits [of w config "map Inr parts" False ?tr1] tr2 by auto
  have "filter mutatorCall pnew = []"
    using pnew(2) mutatorCall_partEvent by (intro filter_none) blast
  then have a: "filter mutatorCall tr2 = filter mutatorCall tr"
    using pnew(1) by simp
  have b: "processMessage w uid config tr
         = (case moveToFolder w uid ''done'' tr2 of
              (Some err, tr3) \<Rightarrow> (Some (Wrap ''failed to move message: '' err), tr3)
            | (None, tr3) \<Rightarrow> (None, tr3 @ [Log (LMoved uid)]))"
    using processMessage_parsed [OF fetch body parse tr2] attach by simp
  obtain mnew where mnew: "snd (moveToFolder w uid ''done'' tr2) = tr2 @ mnew"
    "filter mutatorCall mnew \<noteq> []" "hd mnew = Cmd (ListMailboxes '''' ''done'')"
    using moveToFolder_segment [of w uid "''done''" tr2] by blast
  from mnew(2) have "mnew \<noteq> []" by auto
  with mnew(3) obtain rest where rest: "mnew = Cmd (ListMailboxes '''' ''done'') # rest"
    by (cases mnew) auto
  obtain r where r: "moveToFolder w uid ''done'' tr2 = (r, tr2 @ mnew)"
    using mnew(1) by (metis prod.collapse)
  have c: "\<exists>rest. snd (processMessage w uid config tr)
                 = tr2 @ Cmd (ListMailboxes '''' ''done'') # rest"
  proof (cases r)
    case None
    with b r rest have "snd (processMessage w uid config tr)
        = tr2 @ Cmd (ListMailboxes '''' ''done'') # (rest @ [Log (LMoved uid)])"
      by simp
    then show ?thesis by (rule exI)
  next
    case (Some err)
    with b r rest have "snd (processMessage w uid config tr)
        = tr2 @ Cmd (ListMailboxes '''' ''done'') # rest"
      by simp
    then show ?thesis by (rule exI)
  qed
  from a b c show ?thesis by blast
qed

theorem processMessage_moves_whatever_the_uploads_witness:
  "processMessage (exampleWorld [Inr termsPart, Inr brokenPart] 200) 9 exampleConfig []
     = (None,
        [Log (LProcessingUID 9), Cmd (FetchBody 9),
         Log (LFoundAttachment ''AGB_terms.pdf''), Log (LSkipping ''AGB_terms.pdf''),
         Log (LFoundAttachment ''scan.pdf''), Log (LReadFailed (Err ''unexpected EOF'')),
         Cmd (ListMailboxes '''' ''done''), Cmd (Copy 9 ''done''),
         Cmd (StoreAddDeleted 9), Cmd Expunge, Log (LMoved 9)])"
proof -
  let ?w = "exampleWorld [Inr termsPart, Inr brokenPart] 200"
  let ?tr2 = "[Log (LProcessingUID 9), Cmd (FetchBody 9),
         Log (LFoundAttachment ''AGB_terms.pdf''), Log (LSkipping ''AGB_terms.pdf''),
         Log (LFoundAttachment ''scan.pdf''), Log (LReadFailed (Err ''unexpected EOF''))]"
  have fetch: "imapFetchBody ?w ([] @ [Log (LProcessingUID 9)]) 9
      = Inr (\<lparr> UID = 9, BodySection = [''raw''] \<rparr> # [])"
    by (simp add: exampleWorld_def)
  have body: "BodySection \<lparr> UID = (9::uid), BodySection = [''raw''] \<rparr> = ''raw'' # []"
    by simp
  have parse: "mailCreateReader ?w ''raw'' = Inr (map Inr [termsPart, brokenPart])"
    by (simp add: exampleWorld_def)
  have attach: "\<exists>p\<in>set [termsPart, brokenPart]. Header p \<noteq> InlineHeader"
    by (simp add: termsPart_def)
  have tr2: "?tr2 = snd (processParts ?w exampleConfig (map Inr [termsPart, brokenPart]) False
                           ([] @ [Log (LProcessingUID 9), Cmd (FetchBody 9)]))"
    by (simp add: run_defs)
  have move: "moveToFolder ?w 9 ''done'' ?tr2
      = (None, ?tr2 @ [Cmd (ListMailboxes '''' ''done''), Cmd (Copy 9 ''done''),
         Cmd (StoreAddDeleted 9), Cmd Expunge])"
    by (simp add: run_defs)
  show ?thesis
    using processMessage_moves_whatever_the_uploads
      [OF fetch body parse attach tr2, THEN conjunct2, THEN conjunct1] move
    by simp
qed

lemma create_not_partEvent: "partEvent e \<Longrightarrow> e \<noteq> Cmd (Create n) \<and> e \<noteq> Cmd (ListMailboxes r n)"
  by (cases e rule: partEvent.cases) simp_all

text \<open>
  C2. For every message that is fetched, whose parts are all read and hold at least one
  attachment header, and for which the loop reports no payload that cannot be read and no
  failed upload (in particular when every attachment is skipped), \<open>processMessage\<close> runs
  one move for that message to the folder \<open>done\<close>: the mutator commands it sends are a
  non-empty initial segment of listing \<open>done\<close>, creating \<open>done\<close> when it is not listed,
  copying the message to \<open>done\<close>, flagging it and expunging, with exactly one listing; when
  the result is \<open>nil\<close> the whole sequence was sent and the move is logged last.
\<close>

theorem processMessage_moves_once:
  assumes fetch: "imapFetchBody w (tr @ [Log (LProcessingUID uid)]) uid = Inr (msg # others)"
    and body: "BodySection msg = literal # further"
    and parse: "mailCreateReader w literal = Inr (map Inr parts)"
    and attach: "\<exists>p\<in>set parts. Header p \<noteq> InlineHeader"
    and new: "new = emitted tr (snd (processMessage w uid config tr))"
    and uploaded: "\<forall>e\<in>set new. \<not> attachmentFailure e"
  shows "snd (processMessage w uid config tr) = tr @ new
     \<and> filter mutatorCall new \<noteq> []
     \<and> filter mutatorCall new
         = take (length (filter mutatorCall new))
             (moveSteps uid ''done'' (Cmd (Create ''done'') \<in> set new))
     \<and> length (filter (\<lambda>e. e = Cmd (ListMailboxes '''' ''done'')) new) = 1
     \<and> (fst (processMessage w uid config tr) = None
          \<longrightarrow> filter mutatorCall new = moveSteps uid ''done'' (Cmd (Create ''done'') \<in> set new)
              \<and> last new = Log (LMoved uid))"
proof -
  let ?tr1 = "tr @ [Log (LProcessingUID uid), Cmd (FetchBody uid)]"
  let ?L = "Cmd (ListMailboxes '''' ''done'')"
  let ?C = "Cmd (Create ''done'')"
  define tr2 where "tr2 = snd (processParts w config (map Inr parts) False ?tr1)"
  obtain pnew where pnew: "tr2 = ?tr1 @ pnew" "\<forall>e\<in>set pnew. partEvent e"
    using processParts_emits [of w config "map Inr parts" False ?tr1] tr2_def by auto
  have p1: "filter mutatorCall pnew = []"
    using pnew(2) mutatorCall_partEvent by (intro filter_none) blast
  have p2: "?C \<notin> set pnew" and p3: "filter (\<lambda>e. e = ?L) pnew = []"
    using pnew(2) create_not_partEvent by (blast, intro filter_none, blast)
  have b: "processMessage w uid config tr
         = (case moveToFolder w uid ''done'' tr2 of
              (Some err, tr3) \<Rightarrow> (Some (Wrap ''failed to move message: '' err), tr3)
            | (None, tr3) \<Rightarrow> (None, tr3 @ [Log (LMoved uid)]))"
    using processMessage_parsed [OF fetch body parse tr2_def] attach by simp
  obtain mnew where m: "snd (moveToFolder w uid ''done'' tr2) = tr2 @ mnew
     \<and> (\<forall>e\<in>set mnew. moveEvent e)
     \<and> filter mutatorCall mnew \<noteq> []
     \<and> filter mutatorCall mnew
         = take (length (filter mutatorCall mnew)) (moveSteps uid ''done'' (?C \<in> set mnew))
     \<and> length (filter (\<lambda>e. e = ?L) mnew) = 1
     \<and> hd mnew = ?L
     \<and> (fst (moveToFolder w uid ''done'' tr2) = None
          \<longrightarrow> filter mutatorCall mnew = moveSteps uid ''done'' (?C \<in> set mnew))"
    using moveToFolder_segment [of w uid "''done''" tr2] by (rule exE)
  then have mnew: "snd (moveToFolder w uid ''done'' tr2) = tr2 @ mnew"
    "filter mutatorCall mnew \<noteq> []"
    "filter mutatorCall mnew
         = take (length (filter mutatorCall mnew)) (moveSteps uid ''done'' (?C \<in> set mnew))"
    "length (filter (\<lambda>e. e = ?L) mnew) = 1"
    "fst (moveToFolder w uid ''done'' tr2) = None
          \<longrightarrow> filter mutatorCall mnew = moveSteps uid ''done'' (?C \<in> set mnew)"
    by simp_all
  obtain r where r: "moveToFolder w uid ''done'' tr2 = (r, tr2 @ mnew)"
    using mnew(1) by (metis prod.collapse)
  show ?thesis
  proof (cases r)
    case (Some err)
    with b r pnew(1) have s: "processMessage w uid config tr
        = (Some (Wrap ''failed to move message: '' err),
           tr @ ([Log (LProcessingUID uid), Cmd (FetchBody uid)] @ pnew @ mnew))"
      by simp
    then have n: "new = [Log (LProcessingUID uid), Cmd (FetchBody uid)] @ pnew @ mnew"
      unfolding new by simp
    have c: "?C \<in> set new \<longleftrightarrow> ?C \<in> set mnew" using p2 n by auto
    have f: "filter mutatorCall new = filter mutatorCall mnew" using p1 n by simp
    have l: "filter (\<lambda>e. e = ?L) new = filter (\<lambda>e. e = ?L) mnew" using p3 n by simp
    show ?thesis
      unfolding c f l using s n mnew(2,3,4) by simp
  next
    case None
    with b r pnew(1) have s: "processMessage w uid config tr
        = (None, tr @ ([Log (LProcessingUID uid), Cmd (FetchBody uid)] @ pnew @ mnew
                        @ [Log (LMoved uid)]))"
      by simp
    then have n: "new = [Log (LProcessingUID uid), Cmd (FetchBody uid)] @ pnew @ mnew
                        @ [Log (LMoved uid)]"
      unfolding new by simp
    have c: "?C \<in> set new \<longleftrightarrow> ?C \<in> set mnew" using p2 n by auto
    have f: "filter mutatorCall new = filter mutatorCall mnew" using p1 n by simp
    have l: "filter (\<lambda>e. e = ?L) new = filter (\<lambda>e. e = ?L) mnew" using p3 n by simp
    have full: "filter mutatorCall mnew = moveSteps uid ''done'' (?C \<in> set mnew)"
      using mnew(5) r None by simp
    have last: "last new = Log (LMoved uid)" using n by simp
    show ?thesis
      unfolding c f l using s n mnew(2,3,4) full last by simp
  qed
qed

theorem processMessage_moves_once_witness:
  "processMessage (exampleWorld [Inr textPart, Inr invoicePart, Inr termsPart] 201) 9
       exampleConfig [Log LLoggedIn]
     = (None,
        [Log LLoggedIn] @
        [Log (LProcessingUID 9), Cmd (FetchBody 9),
         Log (LFoundAttachment ''invoice.pdf''),
         Cmd (HTTPDo \<lparr> Method = ''POST'', URL = ''https://api.lexoffice.io/v1/files'',
                         Authorization = ''Bearer key'', Accept = ''application/json'',
                         FormFile = (''file'', ''invoice.pdf'', ''%PDF''),
                         FormFields = [(''type'', ''voucher'')] \<rparr>),
         Log (LUploaded ''invoice.pdf''),
         Log (LFoundAttachment ''AGB_terms.pdf''), Log (LSkipping ''AGB_terms.pdf''),
         Cmd (ListMailboxes '''' ''done''), Cmd (Copy 9 ''done''),
         Cmd (StoreAddDeleted 9), Cmd Expunge, Log (LMoved 9)])
   \<and> filter mutatorCall
        (emitted [Log LLoggedIn]
           (snd (processMessage (exampleWorld [Inr textPart, Inr invoicePart, Inr termsPart] 201)
                   9 exampleConfig [Log LLoggedIn])))
     = moveSteps 9 ''done'' False"
proof -
  let ?w = "exampleWorld [Inr textPart, Inr invoicePart, Inr termsPart] 201"
  let ?new = "[Log (LProcessingUID 9), Cmd (FetchBody 9),
         Log (LFoundAttachment ''invoice.pdf''),
         Cmd (HTTPDo \<lparr> Method = ''POST'', URL = ''https://api.lexoffice.io/v1/files'',
                         Authorization = ''Bearer key'', Accept = ''application/json'',
                         FormFile = (''file'', ''invoice.pdf'', ''%PDF''),
                         FormFields = [(''type'', ''voucher'')] \<rparr>),
         Log (LUploaded ''invoice.pdf''),
         Log (LFoundAttachment ''AGB_terms.pdf''), Log (LSkipping ''AGB_terms.pdf''),
         Cmd (ListMailboxes '''' ''done''), Cmd (Copy 9 ''done''),
         Cmd (StoreAddDeleted 9), Cmd Expunge, Log (LMoved 9)]"
  have run: "processMessage ?w 9 exampleConfig [Log LLoggedIn] = (None, [Log LLoggedIn] @ ?new)"
    by (simp add: run_defs)
  have fetch: "imapFetchBody ?w ([Log LLoggedIn] @ [Log (LProcessingUID 9)]) 9
      = Inr (\<lparr> UID = 9, BodySection = [''raw''] \<rparr> # [])"
    by (simp add: exampleWorld_def)
  have body: "BodySection \<lparr> UID = (9::uid), BodySection = [''raw''] \<rparr> = ''raw'' # []"
    by simp
  have parse: "mailCreateReader ?w ''raw'' = Inr (map Inr [textPart, invoicePart, termsPart])"
    by (simp add: exampleWorld_def)
  have attach: "\<exists>p\<in>set [textPart, invoicePart, termsPart]. Header p \<noteq> InlineHeader"
    by (simp add: invoicePart_def)
  have new: "?new = emitted [Log LLoggedIn] (snd (processMessage ?w 9 exampleConfig [Log LLoggedIn]))"
    unfolding run by (simp add: emitted_def)
  have uploaded: "\<forall>e\<in>set ?new. \<not> attachmentFailure e"
    by simp
  have imp: "fst (processMessage ?w 9 exampleConfig [Log LLoggedIn]) = None
          \<longrightarrow> filter mutatorCall ?new = moveSteps 9 ''done'' (Cmd (Create ''done'') \<in> set ?new)"
    using processMessage_moves_once [OF fetch body parse attach new uploaded] by blast
  have "fst (processMessage ?w 9 exampleConfig [Log LLoggedIn]) = None"
    unfolding run by simp
  with imp have g: "filter mutatorCall ?new
      = moveSteps 9 ''done'' (Cmd (Create ''done'') \<in> set ?new)"
    by (rule mp)
  have h: "(Cmd (Create ''done'') \<in> set ?new) = False"
    by simp
  have "filter mutatorCall (emitted [Log LLoggedIn]
           (snd (processMessage ?w 9 exampleConfig [Log LLoggedIn])))
      = moveSteps 9 ''done'' False"
    unfolding new [symmetric] using g unfolding h .
  with run show ?thesis by (rule conjI)
qed

text \<open>
  C5. An attachment part whose filename matches an ignore pattern is passed over by the
  loop with two log lines and nothing else: its payload is not read, no upload is sent for
  it, and neither a success nor a failure is logged for it. Over a whole call of
  \<open>processMessage\<close>, every upload request that is sent carries a filename that matches no
  ignore pattern.
\<close>

theorem ignored_attachment_never_uploaded:
  "(Header part = AttachmentHeader filename \<longrightarrow> shouldIgnoreFile filename \<longrightarrow>
      processParts w config (Inr part # rest) has tr
        = processParts w config rest True
            (tr @ [Log (LFoundAttachment filename), Log (LSkipping filename)]))
   \<and> (\<exists>ups. uploads (snd (processMessage w uid config tr)) = uploads tr @ ups
          \<and> (\<forall>f\<in>set ups. \<not> shouldIgnoreFile f))"
proof -
  have a: "Header part = AttachmentHeader filename \<longrightarrow> shouldIgnoreFile filename \<longrightarrow>
      processParts w config (Inr part # rest) has tr
        = processParts w config rest True
            (tr @ [Log (LFoundAttachment filename), Log (LSkipping filename)])"
    by simp
  obtain new where new: "snd (processMessage w uid config tr) = tr @ Log (LProcessingUID uid) # new"
    "\<forall>f\<in>set (uploads new). \<not> shouldIgnoreFile f"
    using processMessage_emits by blast
  have "uploads (snd (processMessage w uid config tr)) = uploads tr @ uploads new"
    unfolding new(1) by simp
  with new(2) have b: "\<exists>ups. uploads (snd (processMessage w uid config tr)) = uploads tr @ ups
          \<and> (\<forall>f\<in>set ups. \<not> shouldIgnoreFile f)"
    by blast
  from a b show ?thesis by (rule conjI)
qed

theorem ignored_attachment_never_uploaded_witness:
  "shouldIgnoreFile ''AGB_terms.pdf''
   \<and> processParts (exampleWorld [Inr termsPart, Inr invoicePart] 200) exampleConfig
        [Inr termsPart, Inr invoicePart] False []
      = processParts (exampleWorld [Inr termsPart, Inr invoicePart] 200) exampleConfig
          [Inr invoicePart] True
          [Log (LFoundAttachment ''AGB_terms.pdf''), Log (LSkipping ''AGB_terms.pdf'')]
   \<and> uploads (snd (processMessage (exampleWorld [Inr termsPart, Inr invoicePart] 200) 9
                      exampleConfig []))
      = [''invoice.pdf'']
   \<and> \<not> shouldIgnoreFile ''invoice.pdf''"
proof -
  let ?w = "exampleWorld [Inr termsPart, Inr invoicePart] 200"
  have h: "Header termsPart = AttachmentHeader ''AGB_terms.pdf''"
    by (simp add: termsPart_def)
  have i: "shouldIgnoreFile ''AGB_terms.pdf''"
    by (simp add: run_defs)
  have u: "uploads (snd (processMessage ?w 9 exampleConfig [])) = [''invoice.pdf'']"
    by (simp add: run_defs)
  note t = ignored_attachment_never_uploaded
    [of termsPart "''AGB_terms.pdf''" ?w exampleConfig "[Inr invoicePart]" False "[]" 9]
  from t h i have step: "processParts ?w exampleConfig [Inr termsPart, Inr invoicePart] False []
      = processParts ?w exampleConfig [Inr invoicePart] True
          [Log (LFoundAttachment ''AGB_terms.pdf''), Log (LSkipping ''AGB_terms.pdf'')]"
    by simp
  from t obtain ups where ups: "uploads (snd (processMessage ?w 9 exampleConfig [])) = uploads [] @ ups"
    "\<forall>f\<in>set ups. \<not> shouldIgnoreFile f"
    by blast
  from ups(1) u have "ups = [''invoice.pdf'']" by simp
  with ups(2) have n: "\<not> shouldIgnoreFile ''invoice.pdf''" by simp
  from i step u n show ?thesis by blast
qed

section \<open>Properties of the poll driver\<close>

lemma processMessages_append:
  "processMessages w config (xs @ ys) tr
     = processMessages w config ys (processMessages w config xs tr)"
proof (induction xs arbitrary: tr)
  case Nil
  then show ?case by simp
next
  case (Cons x xs)
  obtain r tr1 where "processMessage w (UID x) config tr = (r, tr1)"
    by (cases "processMessage w (UID x) config tr")
  with Cons show ?case by (cases r) simp_all
qed

text \<open>One turn of the loop over the messages adds the start of the processing of its
  message and then no other start.\<close>

lemma processMessages_step:
  "\<exists>new. filter processingStart new = [] \<and>
     processMessages w config (msg # rest) tr
       = processMessages w config rest (tr @ Log (LProcessingUID (UID msg)) # new)"
proof -
  obtain new where new:
    "snd (processMessage w (UID msg) config tr) = tr @ Log (LProcessingUID (UID msg)) # new"
    "filter processingStart new = []"
    using processMessage_emits by blast
  obtain r where r:
    "processMessage w (UID msg) config tr = (r, tr @ Log (LProcessingUID (UID msg)) # new)"
    using new(1) by (metis prod.collapse)
  show ?thesis
  proof (cases r)
    case None
    with r have "processMessages w config (msg # rest) tr
       = processMessages w config rest (tr @ Log (LProcessingUID (UID msg)) # new)"
      by simp
    with new(2) show ?thesis by blast
  next
    case (Some err)
    with r have "processMessages w config (msg # rest) tr
       = processMessages w config rest
           (tr @ Log (LProcessingUID (UID msg)) # (new @ [Log (LFailedProcess (UID msg) err)]))"
      by simp
    moreover have "filter processingStart (new @ [Log (LFailedProcess (UID msg) err)]) = []"
      using new(2) by simp
    ultimately show ?thesis by blast
  qed
qed

lemma processMessages_extends: "\<exists>new. processMessages w config msgs tr = tr @ new"
proof (induction msgs arbitrary: tr)
  case Nil
  then show ?case by simp
next
  case (Cons msg msgs)
  obtain new where new: "processMessages w config (msg # msgs) tr
       = processMessages w config msgs (tr @ Log (LProcessingUID (UID msg)) # new)"
    using processMessages_step by blast
  obtain new2 where "processMessages w config msgs (tr @ Log (LProcessingUID (UID msg)) # new)
      = (tr @ Log (LProcessingUID (UID msg)) # new) @ new2"
    using Cons.IH by blast
  with new have "processMessages w config (msg # msgs) tr
      = tr @ (Log (LProcessingUID (UID msg)) # new @ new2)"
    by simp
  then show ?case by (rule exI)
qed

lemma processMessages_starts:
  "filter processingStart (processMessages w config msgs tr)
     = filter processingStart tr @ map (\<lambda>msg. Log (LProcessingUID (UID msg))) msgs"
proof (induction msgs arbitrary: tr)
  case Nil
  then show ?case by simp
next
  case (Cons msg msgs)
  obtain new where new: "filter processingStart new = []"
    "processMessages w config (msg # msgs) tr
       = processMessages w config msgs (tr @ Log (LProcessingUID (UID msg)) # new)"
    using processMessages_step by blast
  show ?case
    unfolding new(2) Cons.IH using new(1) by simp
qed

text \<open>A poll cycle that connects, logs in, selects a non-empty inbox and lists its messages
  starts the processing of every listed message, in the order of the list.\<close>

lemma processMailbox_starts:
  assumes dial: "imapDialTLS w (tr @ [Log LConnecting])
                   (IMAPServer config @ '':'' @ IMAPPort config) = None"
    and login: "imapLogin w
                   (tr @ [Log LConnecting,
                          Cmd (DialTLS (IMAPServer config @ '':'' @ IMAPPort config))])
                   (IMAPUser config) (IMAPPassword config) = None"
    and select: "imapSelect w
                   (tr @ [Log LConnecting,
                          Cmd (DialTLS (IMAPServer config @ '':'' @ IMAPPort config)),
                          Cmd (Login (IMAPUser config) (IMAPPassword config)), Log LLoggedIn])
                   ''INBOX'' = Inr n"
    and nonempty: "n \<noteq> 0"
    and list: "imapFetchUIDs w
                   (tr @ [Log LConnecting,
                          Cmd (DialTLS (IMAPServer config @ '':'' @ IMAPPort config)),
                          Cmd (Login (IMAPUser config) (IMAPPassword config)), Log LLoggedIn,
                          Cmd (Select ''INBOX''), Log (LFoundMessages n)])
                   1 n = Inr msgs"
  shows "filter processingStart (processMailbox w config tr)
     = filter processingStart tr @ map (\<lambda>msg. Log (LProcessingUID (UID msg))) msgs"
proof -
  let ?t1 = "tr @ [Log LConnecting, Cmd (DialTLS (IMAPServer config @ '':'' @ IMAPPort config))]"
  let ?t5 = "tr @ [Log LConnecting,
                   Cmd (DialTLS (IMAPServer config @ '':'' @ IMAPPort config)),
                   Cmd (Login (IMAPUser config) (IMAPPassword config)), Log LLoggedIn,
                   Cmd (Select ''INBOX''), Log (LFoundMessages n), Cmd (FetchUIDs 1 n),
                   Log (LProcessingCount (length msgs))]"
  have s: "\<exists>tail. mailboxSession w config ?t1 = processMessages w config msgs ?t5 @ tail
      \<and> filter processingStart tail = []"
  proof (cases "imapLogout w (processMessages w config msgs ?t5)")
    case None
    with login select nonempty list have "mailboxSession w config ?t1
        = processMessages w config msgs ?t5 @ [Cmd Logout]"
      by (simp add: mailboxSession_def Let_def)
    then show ?thesis by simp
  next
    case (Some err)
    with login select nonempty list have "mailboxSession w config ?t1
        = processMessages w config msgs ?t5 @ [Cmd Logout, Log (LLogoutFailed err)]"
      by (simp add: mailboxSession_def Let_def)
    then show ?thesis by simp
  qed
  then obtain tail where tail:
    "mailboxSession w config ?t1 = processMessages w config msgs ?t5 @ tail"
    "filter processingStart tail = []"
    by blast
  have "processMailbox w config tr = mailboxSession w config ?t1 @ [Cmd Close]"
    using dial by (simp add: processMailbox_def Let_def)
  then show ?thesis
    unfolding tail(1) using tail(2) processMessages_starts [of w config msgs ?t5]
    by simp
qed

text \<open>
  C7. The loop of \<open>processMailbox\<close> starts the processing of every fetched message once,
  in the order of the list, whatever the results of \<open>processMessage\<close> are. When the
  processing of a message fails, the error is logged after it and the loop goes on with
  the rest of the list: every later message is processed. So a poll cycle that connects,
  logs in, selects a non-empty inbox and lists its messages processes every listed message.
\<close>

theorem processMessages_continue_after_failure:
  "filter processingStart (processMessages w config msgs tr)
     = filter processingStart tr @ map (\<lambda>msg. Log (LProcessingUID (UID msg))) msgs
   \<and> (processMessage w (UID a) config (processMessages w config before tr) = (Some err, tr1)
        \<longrightarrow> processMessages w config (before @ a # later) tr
              = processMessages w config later (tr1 @ [Log (LFailedProcess (UID a) err)])
            \<and> filter processingStart
                (emitted (tr1 @ [Log (LFailedProcess (UID a) err)])
                   (processMessages w config (before @ a # later) tr))
              = map (\<lambda>msg. Log (LProcessingUID (UID msg))) later)
   \<and> (imapDialTLS w (tr @ [Log LConnecting])
          (IMAPServer config @ '':'' @ IMAPPort config) = None
        \<longrightarrow> imapLogin w
              (tr @ [Log LConnecting,
                     Cmd (DialTLS (IMAPServer config @ '':'' @ IMAPPort config))])
              (IMAPUser config) (IMAPPassword config) = None
        \<longrightarrow> imapSelect w
              (tr @ [Log LConnecting,
                     Cmd (DialTLS (IMAPServer config @ '':'' @ IMAPPort config)),
                     Cmd (Login (IMAPUser config) (IMAPPassword config)), Log LLoggedIn])
              ''INBOX'' = Inr n
        \<longrightarrow> n \<noteq> 0
        \<longrightarrow> imapFetchUIDs w
              (tr @ [Log LConnecting,
                     Cmd (DialTLS (IMAPServer config @ '':'' @ IMAPPort config)),
                     Cmd (Login (IMAPUser config) (IMAPPassword config)), Log LLoggedIn,
                     Cmd (Select ''INBOX''), Log (LFoundMessages n)])
              1 n = Inr msgs
        \<longrightarrow> filter processingStart (processMailbox w config tr)
              = filter processingStart tr @ map (\<lambda>msg. Log (LProcessingUID (UID msg))) msgs)"
proof -
  have b: "processMessages w config (before @ a # later) tr
              = processMessages w config later (tr1 @ [Log (LFailedProcess (UID a) err)])
            \<and> filter processingStart
                (emitted (tr1 @ [Log (LFailedProcess (UID a) err)])
                   (processMessages w config (before @ a # later) tr))
              = map (\<lambda>msg. Log (LProcessingUID (UID msg))) later"
    if f: "processMessage w (UID a) config (processMessages w config before tr) = (Some err, tr1)"
  proof -
    let ?t = "tr1 @ [Log (LFailedProcess (UID a) err)]"
    have e: "processMessages w config (before @ a # later) tr = processMessages w config later ?t"
      unfolding processMessages_append using f by simp
    obtain new where new: "processMessages w config later ?t = ?t @ new"
      using processMessages_extends by blast
    have "filter processingStart (?t @ new)
        = filter processingStart ?t @ map (\<lambda>msg. Log (LProcessingUID (UID msg))) later"
      using processMessages_starts [of w config later ?t] unfolding new .
    then have "filter processingStart new = map (\<lambda>msg. Log (LProcessingUID (UID msg))) later"
      by simp
    then have "filter processingStart (emitted ?t (processMessages w config (before @ a # later) tr))
        = map (\<lambda>msg. Log (LProcessingUID (UID msg))) later"
      unfolding e new by (simp add: emitted_def)
    with e show ?thesis by (rule conjI)
  qed
  from processMessages_starts [of w config msgs tr] b processMailbox_starts [of w tr config n msgs]
  show ?thesis by blast
qed

theorem processMessages_continue_after_failure_witness:
  "processMessage (exampleWorld [Inr invoicePart] 200) 7 exampleConfig []
     = (Some (Wrap ''fetch failed: '' (Err ''timeout'')),
        [Log (LProcessingUID 7), Cmd (FetchBody 7)])
   \<and> filter processingStart
        (processMessages (exampleWorld [Inr invoicePart] 200) exampleConfig
           [\<lparr> UID = 7, BodySection = [] \<rparr>, \<lparr> UID = 9, BodySection = [] \<rparr>] [])
     = [Log (LProcessingUID 7), Log (LProcessingUID 9)]
   \<and> filter processingStart
        (emitted [Log (LProcessingUID 7), Cmd (FetchBody 7),
                  Log (LFailedProcess 7 (Wrap ''fetch failed: '' (Err ''timeout'')))]
           (processMessages (exampleWorld [Inr invoicePart] 200) exampleConfig
              [\<lparr> UID = 7, BodySection = [] \<rparr>, \<lparr> UID = 9, BodySection = [] \<rparr>] []))
     = [Log (LProcessingUID 9)]
   \<and> filter processingStart (processMailbox (exampleWorld [Inr invoicePart] 200) exampleConfig [])
     = [Log (LProcessingUID 7), Log (LProcessingUID 9)]"
proof -
  let ?w = "exampleWorld [Inr invoicePart] 200"
  let ?m7 = "\<lparr> UID = (7::uid), BodySection = ([]::bytes list) \<rparr>"
  let ?m9 = "\<lparr> UID = (9::uid), BodySection = ([]::bytes list) \<rparr>"
  have f: "processMessage ?w (UID ?m7) exampleConfig (processMessages ?w exampleConfig [] [])
      = (Some (Wrap ''fetch failed: '' (Err ''timeout'')),
         [Log (LProcessingUID 7), Cmd (FetchBody 7)])"
    by (simp add: processMessage_def exampleWorld_def)
  have dial: "imapDialTLS ?w ([] @ [Log LConnecting])
          (IMAPServer exampleConfig @ '':'' @ IMAPPort exampleConfig) = None"
    by (simp add: exampleWorld_def)
  have login: "imapLogin ?w
              ([] @ [Log LConnecting,
                     Cmd (DialTLS (IMAPServer exampleConfig @ '':'' @ IMAPPort exampleConfig))])
              (IMAPUser exampleConfig) (IMAPPassword exampleConfig) = None"
    by (simp add: exampleWorld_def)
  have select: "imapSelect ?w
              ([] @ [Log LConnecting,
                     Cmd (DialTLS (IMAPServer exampleConfig @ '':'' @ IMAPPort exampleConfig)),
                     Cmd (Login (IMAPUser exampleConfig) (IMAPPassword exampleConfig)),
                     Log LLoggedIn])
              ''INBOX'' = Inr 2"
    by (simp add: exampleWorld_def)
  have nonempty: "(2::uid) \<noteq> 0" by simp
  have list: "imapFetchUIDs ?w
              ([] @ [Log LConnecting,
                     Cmd (DialTLS (IMAPServer exampleConfig @ '':'' @ IMAPPort exampleConfig)),
                     Cmd (Login (IMAPUser exampleConfig) (IMAPPassword exampleConfig)),
                     Log LLoggedIn, Cmd (Select ''INBOX''), Log (LFoundMessages 2)])
              1 2 = Inr [?m7, ?m9]"
    by (simp add: exampleWorld_def)
  note t = processMessages_continue_after_failure
    [of ?w exampleConfig "[?m7, ?m9]" "[]" ?m7 "[]" "Wrap ''fetch failed: '' (Err ''timeout'')"
        "[Log (LProcessingUID 7), Cmd (FetchBody 7)]" "[?m9]" 2]
  from t have one: "filter processingStart (processMessages ?w exampleConfig [?m7, ?m9] [])
      = [Log (LProcessingUID 7), Log (LProcessingUID 9)]"
    by simp
  from t f have two: "filter processingStart
        (emitted ([Log (LProcessingUID 7), Cmd (FetchBody 7)]
                    @ [Log (LFailedProcess (UID ?m7) (Wrap ''fetch failed: '' (Err ''timeout'')))])
           (processMessages ?w exampleConfig ([] @ ?m7 # [?m9]) []))
     = map (\<lambda>msg. Log (LProcessingUID (UID msg))) [?m9]"
    by blast
  from t dial login select nonempty list
  have three: "filter processingStart (processMailbox ?w exampleConfig [])
     = filter processingStart [] @ map (\<lambda>msg. Log (LProcessingUID (UID msg))) [?m7, ?m9]"
    by blast
  from f one two three show ?thesis by simp
qed

section \<open>Properties of the startup\<close>

lemma mailboxSession_extends: "\<exists>rest. mailboxSession w config tr = tr @ rest"
proof -
  obtain rest where rest: "\<And>msgs t. processMessages w config msgs t = t @ rest msgs t"
    using processMessages_extends [of w config] by metis
  show ?thesis
    by (simp add: mailboxSession_def Let_def rest split: option.splits sum.splits)
qed

text \<open>A poll cycle begins with the line that announces the connection and with the dial
  to the server and port of the configuration.\<close>

lemma processMailbox_begins:
  "\<exists>rest. processMailbox w config tr
     = tr @ [Log LConnecting, Cmd (DialTLS (IMAPServer config @ '':'' @ IMAPPort config))] @ rest"
proof (cases "imapDialTLS w (tr @ [Log LConnecting]) (IMAPServer config @ '':'' @ IMAPPort config)")
  case (Some err)
  then have "processMailbox w config tr
     = tr @ [Log LConnecting, Cmd (DialTLS (IMAPServer config @ '':'' @ IMAPPort config))]
          @ [Log (LFailedConnect err)]"
    by (simp add: processMailbox_def Let_def)
  then show ?thesis by (rule exI)
next
  case None
  obtain rest where "mailboxSession w config
       (tr @ [Log LConnecting, Cmd (DialTLS (IMAPServer config @ '':'' @ IMAPPort config))])
     = (tr @ [Log LConnecting, Cmd (DialTLS (IMAPServer config @ '':'' @ IMAPPort config))]) @ rest"
    using mailboxSession_extends by blast
  with None have "processMailbox w config tr
     = tr @ [Log LConnecting, Cmd (DialTLS (IMAPServer config @ '':'' @ IMAPPort config))]
          @ (rest @ [Cmd Close])"
    by (simp add: processMailbox_def Let_def)
  then show ?thesis by (rule exI)
qed

lemma tickerLoop_extends: "\<exists>rest. tickerLoop w config ticks tr = tr @ rest"
proof (induction ticks arbitrary: tr)
  case 0
  then show ?case by simp
next
  case (Suc ticks)
  obtain r1 where r1: "processMailbox w config tr = tr @ r1"
    using processMailbox_begins [of w config tr] by auto
  obtain r2 where "tickerLoop w config ticks (tr @ r1) = (tr @ r1) @ r2"
    using Suc by blast
  with r1 have "tickerLoop w config (Suc ticks) tr = tr @ (r1 @ r2)" by simp
  then show ?case by (rule exI)
qed

text \<open>
  C8, as the code has it. At startup, if the mailbox host, the mailbox user, the mailbox
  password or the upload-API credential is blank, \<open>main\<close> ends fatally and nothing but the
  fatal line is in the trace: no poll cycle begins. A blank mailbox port is not fatal: the
  port of the configuration is then \<open>993\<close>, and it is never blank. If the four are not
  blank, \<open>main\<close> does not end fatally; with the flag \<open>-once\<close>, or with a positive poll
  interval, the first poll cycle begins, by connecting to the host and the port of the
  configuration.
\<close>

theorem main_requires_credentials:
  "((osGetenv w ''IMAP_SERVER'' = '''' \<or> osGetenv w ''IMAP_USER'' = ''''
      \<or> osGetenv w ''IMAP_PASSWORD'' = '''' \<or> osGetenv w ''LEXOFFICE_API_KEY'' = '''')
     \<longrightarrow> main w runOnce ticks = (Fatal, [Log LFatalMissing]))
   \<and> (osGetenv w ''IMAP_SERVER'' \<noteq> '''' \<longrightarrow> osGetenv w ''IMAP_USER'' \<noteq> ''''
        \<longrightarrow> osGetenv w ''IMAP_PASSWORD'' \<noteq> '''' \<longrightarrow> osGetenv w ''LEXOFFICE_API_KEY'' \<noteq> ''''
        \<longrightarrow> fst (main w runOnce ticks) \<noteq> Fatal
            \<and> (runOnce \<longrightarrow> main w runOnce ticks
                  = (Returned, processMailbox w (loadConfig w) [Log LRunningOnce]))
            \<and> (runOnce \<or> 0 < PollInterval (loadConfig w)
                 \<longrightarrow> (\<exists>line rest. snd (main w runOnce ticks)
                        = [Log line, Log LConnecting,
                           Cmd (DialTLS (osGetenv w ''IMAP_SERVER'' @ '':''
                                           @ IMAPPort (loadConfig w)))] @ rest)))
   \<and> IMAPPort (loadConfig w)
       = (if osGetenv w ''IMAP_PORT'' = '''' then ''993'' else osGetenv w ''IMAP_PORT'')
   \<and> IMAPPort (loadConfig w) \<noteq> ''''"
proof -
  let ?c = "loadConfig w"
  have sel: "IMAPServer ?c = osGetenv w ''IMAP_SERVER''" "IMAPUser ?c = osGetenv w ''IMAP_USER''"
    "IMAPPassword ?c = osGetenv w ''IMAP_PASSWORD''"
    "LexofficeKey ?c = osGetenv w ''LEXOFFICE_API_KEY''"
    by (simp_all add: loadConfig_def Let_def)
  have port: "IMAPPort ?c
       = (if osGetenv w ''IMAP_PORT'' = '''' then ''993'' else osGetenv w ''IMAP_PORT'')"
    by (simp add: loadConfig_def getEnvOrDefault_def Let_def)
  then have port2: "IMAPPort ?c \<noteq> ''''" by simp
  have a: "main w runOnce ticks = (Fatal, [Log LFatalMissing])"
    if "osGetenv w ''IMAP_SERVER'' = '''' \<or> osGetenv w ''IMAP_USER'' = ''''
      \<or> osGetenv w ''IMAP_PASSWORD'' = '''' \<or> osGetenv w ''LEXOFFICE_API_KEY'' = ''''"
    using that sel unfolding main_def Let_def by auto
  have b: "fst (main w runOnce ticks) \<noteq> Fatal
            \<and> (runOnce \<longrightarrow> main w runOnce ticks
                  = (Returned, processMailbox w ?c [Log LRunningOnce]))
            \<and> (runOnce \<or> 0 < PollInterval ?c
                 \<longrightarrow> (\<exists>line rest. snd (main w runOnce ticks)
                        = [Log line, Log LConnecting,
                           Cmd (DialTLS (osGetenv w ''IMAP_SERVER'' @ '':'' @ IMAPPort ?c))]
                          @ rest))"
    if set: "osGetenv w ''IMAP_SERVER'' \<noteq> ''''" "osGetenv w ''IMAP_USER'' \<noteq> ''''"
      "osGetenv w ''IMAP_PASSWORD'' \<noteq> ''''" "osGetenv w ''LEXOFFICE_API_KEY'' \<noteq> ''''"
  proof -
    have ok: "\<not> (IMAPServer ?c = '''' \<or> IMAPUser ?c = '''' \<or> IMAPPassword ?c = ''''
                \<or> LexofficeKey ?c = '''')"
      using set sel by simp
    have once: "main w True ticks = (Returned, processMailbox w ?c [Log LRunningOnce])"
      using ok unfolding main_def Let_def by simp
    have loop: "main w False ticks
        = (if PollInterval ?c \<le> 0 then (Panicked, [Log (LStarting (PollInterval ?c))])
           else (Waiting, tickerLoop w ?c ticks
                            (processMailbox w ?c [Log (LStarting (PollInterval ?c))])))"
      using ok unfolding main_def Let_def by simp
    have nf: "fst (main w runOnce ticks) \<noteq> Fatal"
      using once loop by (cases runOnce) simp_all
    have begins: "\<exists>line rest. snd (main w runOnce ticks)
                        = [Log line, Log LConnecting,
                           Cmd (DialTLS (osGetenv w ''IMAP_SERVER'' @ '':'' @ IMAPPort ?c))]
                          @ rest"
      if go: "runOnce \<or> 0 < PollInterval ?c"
    proof (cases runOnce)
      case True
      obtain rest where "processMailbox w ?c [Log LRunningOnce]
          = [Log LRunningOnce] @ [Log LConnecting,
               Cmd (DialTLS (IMAPServer ?c @ '':'' @ IMAPPort ?c))] @ rest"
        using processMailbox_begins by blast
      with once True sel(1) have "snd (main w runOnce ticks)
          = [Log LRunningOnce, Log LConnecting,
             Cmd (DialTLS (osGetenv w ''IMAP_SERVER'' @ '':'' @ IMAPPort ?c))] @ rest"
        by simp
      then show ?thesis by blast
    next
      case False
      with go have pos: "0 < PollInterval ?c" by simp
      let ?s = "Log (LStarting (PollInterval ?c))"
      obtain r1 where r1: "processMailbox w ?c [?s]
          = [?s] @ [Log LConnecting, Cmd (DialTLS (IMAPServer ?c @ '':'' @ IMAPPort ?c))] @ r1"
        using processMailbox_begins by blast
      obtain r2 where r2: "tickerLoop w ?c ticks (processMailbox w ?c [?s])
          = processMailbox w ?c [?s] @ r2"
        using tickerLoop_extends by blast
      from loop pos False have "snd (main w runOnce ticks)
          = tickerLoop w ?c ticks (processMailbox w ?c [?s])"
        by simp
      with r1 r2 sel(1) have "snd (main w runOnce ticks)
          = [?s, Log LConnecting,
             Cmd (DialTLS (osGetenv w ''IMAP_SERVER'' @ '':'' @ IMAPPort ?c))] @ (r1 @ r2)"
        by simp
      then show ?thesis by blast
    qed
    from nf once begins show ?thesis by auto
  qed
  from a b port port2 show ?thesis by blast
qed

theorem main_requires_credentials_witness:
  "main ((exampleWorld [] 200)\<lparr>osGetenv := (\<lambda>key. if key = ''IMAP_USER'' then '''' else exampleEnv key)\<rparr>)
        False 3
     = (Fatal, [Log LFatalMissing])
   \<and> fst (main (exampleWorld [] 200) False 1) \<noteq> Fatal
   \<and> IMAPPort (loadConfig (exampleWorld [] 200)) = ''993''
   \<and> (\<exists>line rest. snd (main (exampleWorld [] 200) False 1)
          = [Log line, Log LConnecting, Cmd (DialTLS ''mail.example.org:993'')] @ rest)"
proof -
  let ?f = "(exampleWorld [] 200)\<lparr>osGetenv := (\<lambda>key. if key = ''IMAP_USER'' then '''' else exampleEnv key)\<rparr>"
  let ?w = "exampleWorld [] 200"
  have blank: "osGetenv ?f ''IMAP_USER'' = ''''"
    by simp
  have env: "osGetenv ?w ''IMAP_SERVER'' = ''mail.example.org''" "osGetenv ?w ''IMAP_USER'' = ''bob''"
    "osGetenv ?w ''IMAP_PASSWORD'' = ''secret''" "osGetenv ?w ''LEXOFFICE_API_KEY'' = ''key''"
    "osGetenv ?w ''IMAP_PORT'' = ''''"
    by (simp_all add: exampleWorld_def exampleEnv_def)
  have ne: "osGetenv ?w ''IMAP_SERVER'' \<noteq> ''''" "osGetenv ?w ''IMAP_USER'' \<noteq> ''''"
    "osGetenv ?w ''IMAP_PASSWORD'' \<noteq> ''''" "osGetenv ?w ''LEXOFFICE_API_KEY'' \<noteq> ''''"
    unfolding env by simp_all
  have pos: "0 < PollInterval (loadConfig ?w)"
    by (simp add: loadConfig_def exampleWorld_def exampleEnv_def fiveMinutes_def Let_def)
  have one: "main ?f False 3 = (Fatal, [Log LFatalMissing])"
    using main_requires_credentials [of ?f False 3] blank by blast
  note t = main_requires_credentials [of ?w False 1]
  from t have "IMAPPort (loadConfig ?w)
       = (if osGetenv ?w ''IMAP_PORT'' = '''' then ''993'' else osGetenv ?w ''IMAP_PORT'')"
    by blast
  then have port: "IMAPPort (loadConfig ?w) = ''993''"
    unfolding env by simp
  from t ne have nf: "fst (main ?w False 1) \<noteq> Fatal"
    by blast
  from t ne pos have "\<exists>line rest. snd (main ?w False 1)
          = [Log line, Log LConnecting,
             Cmd (DialTLS (osGetenv ?w ''IMAP_SERVER'' @ '':'' @ IMAPPort (loadConfig ?w)))] @ rest"
    by blast
  then have go: "\<exists>line rest. snd (main ?w False 1)
          = [Log line, Log LConnecting, Cmd (DialTLS ''mail.example.org:993'')] @ rest"
    unfolding port env by simp
  from one nf port go show ?thesis by blast
qed

text \<open>
  The claim C8 as written fails for the port. In this world the variable \<open>IMAP_PORT\<close> is
  blank and the four other variables are set: \<open>main\<close> does not end fatally, it connects to
  port 993 and processes the inbox.
\<close>

theorem blank_port_not_fatal_counterexample:
  "osGetenv (exampleWorld [Inr textPart] 200) ''IMAP_PORT'' = ''''
   \<and> main (exampleWorld [Inr textPart] 200) True 0
     = (Returned,
        [Log LRunningOnce, Log LConnecting, Cmd (DialTLS ''mail.example.org:993''),
         Cmd (Login ''bob'' ''secret''), Log LLoggedIn, Cmd (Select ''INBOX''),
         Log (LFoundMessages 2), Cmd (FetchUIDs 1 2), Log (LProcessingCount 2),
         Log (LProcessingUID 7), Cmd (FetchBody 7),
         Log (LFailedProcess 7 (Wrap ''fetch failed: '' (Err ''timeout''))),
         Log (LProcessingUID 9), Cmd (FetchBody 9), Log (LNoAttachments 9),
         Cmd Logout, Cmd Close])"
  by (simp add: run_defs main_def loadConfig_def getEnvOrDefault_def exampleEnv_def
      processMailbox_def mailboxSession_def fiveMinutes_def)

end
